theory Spec2Isabelle
  imports Complex_Main
begin

section \<open>MoodQuiz: the text-to-mood inference core of services/ml/main.py\<close>

text \<open>
  The development embeds the deterministic part of \<^verbatim>\<open>services/ml/main.py\<close>: the
  tokenizer, the loader of the VAD lexicon, the longest-phrase-first scan with its
  aggregation, the two projections into the five-dimensional mood space, the blend and
  the route \<^verbatim>\<open>infer_text\<close>.

  Conventions of the embedding.
  \<^item> A Python \<^verbatim>\<open>float\<close> is an exact rational number (\<^typ>\<open>rat\<close>): every decimal
    literal of the source denotes the rational it is written as, and \<^verbatim>\<open>+\<close>, \<^verbatim>\<open>*\<close> and
    \<^verbatim>\<open>/\<close> are exact. The binary rounding of IEEE arithmetic, infinities and NaN are outside
    the model.
  \<^item> A Python \<^verbatim>\<open>str\<close> is a \<^typ>\<open>string\<close> of ASCII characters; \<^verbatim>\<open>str.lower\<close> maps
    \<^verbatim>\<open>A-Z\<close> to \<^verbatim>\<open>a-z\<close> and leaves every other character alone.
  \<^item> A Python \<^verbatim>\<open>dict\<close> is an association list with distinct keys in insertion order;
    \<^verbatim>\<open>d[k] = v\<close> replaces the value in place or appends a new pair.
  \<^item> The two collaborators are parameters: the rows that \<^verbatim>\<open>csv.DictReader\<close> yields for
    the lexicon file, and the emotion classifier.
\<close>

subsection \<open>Numbers\<close>

definition py_round4 :: "rat \<Rightarrow> rat" where
  \<comment> \<open>\<^verbatim>\<open>round(x, 4)\<close>: to the nearest multiple of 1/10000, an exact tie to the even one.\<close>
  "py_round4 x =
     (let y = x * 10000; f = \<lfloor>y\<rfloor>; d = y - of_int f in
      (if d < 1 / 2 then of_int f
       else if 1 / 2 < d then of_int (f + 1)
       else if even f then of_int f else of_int (f + 1)) / 10000)"

subsection \<open>Dictionaries\<close>

fun dict_set :: "'k \<Rightarrow> 'v \<Rightarrow> ('k \<times> 'v) list \<Rightarrow> ('k \<times> 'v) list" where
  \<comment> \<open>\<^verbatim>\<open>d[k] = v\<close>\<close>
  "dict_set k v [] = [(k, v)]"
| "dict_set k v ((k', v') # rest) =
     (if k' = k then (k, v) # rest else (k', v') # dict_set k v rest)"

definition dict_get_or :: "('k \<times> 'v) list \<Rightarrow> 'k \<Rightarrow> 'v \<Rightarrow> 'v" where
  \<comment> \<open>\<^verbatim>\<open>d.get(k, default)\<close>\<close>
  "dict_get_or d k dflt = (case map_of d k of None \<Rightarrow> dflt | Some v \<Rightarrow> v)"

fun dict_iadd :: "'k \<Rightarrow> rat \<Rightarrow> ('k \<times> rat) list \<Rightarrow> ('k \<times> rat) list" where
  \<comment> \<open>\<^verbatim>\<open>d[k] += x\<close> for a key that is present. Python raises \<^verbatim>\<open>KeyError\<close> for an absent
      key; the only caller adds into the five keys of \<^verbatim>\<open>DEFAULT_MOOD\<close>, which every row of
      \<^verbatim>\<open>EMOTION_TO_MOOD\<close> has (lemma \<open>EMOTION_TO_MOOD_keys\<close>).\<close>
  "dict_iadd k x [] = []"
| "dict_iadd k x ((k', v) # rest) =
     (if k' = k then (k', v + x) # rest else (k', v) # dict_iadd k x rest)"

subsection \<open>Mood vectors and the blend\<close>

type_synonym mood = "(string \<times> rat) list"

definition EMOTION_TO_MOOD :: "(string \<times> mood) list" where
  "EMOTION_TO_MOOD =
    [(''joy'',        [(''valence'', 9/10),  (''energy'', 7/10), (''focus'', 4/10), (''danceability'', 7/10), (''tempo_pref'', 75/100)]),
     (''love'',       [(''valence'', 85/100), (''energy'', 6/10), (''focus'', 5/10), (''danceability'', 6/10), (''tempo_pref'', 65/100)]),
     (''admiration'', [(''valence'', 8/10),  (''energy'', 6/10), (''focus'', 6/10), (''danceability'', 5/10), (''tempo_pref'', 65/100)]),
     (''surprise'',   [(''valence'', 7/10),  (''energy'', 8/10), (''focus'', 4/10), (''danceability'', 6/10), (''tempo_pref'', 8/10)]),
     (''anger'',      [(''valence'', 1/10),  (''energy'', 9/10), (''focus'', 3/10), (''danceability'', 4/10), (''tempo_pref'', 85/100)]),
     (''sadness'',    [(''valence'', 1/10),  (''energy'', 2/10), (''focus'', 6/10), (''danceability'', 3/10), (''tempo_pref'', 35/100)]),
     (''fear'',       [(''valence'', 15/100), (''energy'', 6/10), (''focus'', 5/10), (''danceability'', 3/10), (''tempo_pref'', 6/10)]),
     (''disgust'',    [(''valence'', 2/10),  (''energy'', 5/10), (''focus'', 4/10), (''danceability'', 3/10), (''tempo_pref'', 55/100)]),
     (''optimism'',   [(''valence'', 8/10),  (''energy'', 6/10), (''focus'', 6/10), (''danceability'', 6/10), (''tempo_pref'', 65/100)]),
     (''curiosity'',  [(''valence'', 7/10),  (''energy'', 5/10), (''focus'', 7/10), (''danceability'', 5/10), (''tempo_pref'', 55/100)]),
     (''nervous'',    [(''valence'', 24/100), (''energy'', 79/100), (''focus'', 38/100), (''danceability'', 35/100), (''tempo_pref'', 65/100)]),
     (''neutral'',    [(''valence'', 5/10),  (''energy'', 5/10), (''focus'', 5/10), (''danceability'', 5/10), (''tempo_pref'', 5/10)])]"

definition DEFAULT_MOOD :: mood where
  "DEFAULT_MOOD =
    [(''valence'', 1/2), (''energy'', 1/2), (''focus'', 1/2), (''danceability'', 1/2), (''tempo_pref'', 1/2)]"

definition blend_moods :: "mood \<Rightarrow> mood \<Rightarrow> rat \<Rightarrow> mood" where
  "blend_moods a b wa =
     (let wb = 1 - wa in
      fold (\<lambda>k out. dict_set k (py_round4 (dict_get_or a k (1/2) * wa + dict_get_or b k (1/2) * wb)) out)
        (map fst DEFAULT_MOOD) [])"

subsection \<open>Tokenizer\<close>

definition lower_char :: "char \<Rightarrow> char" where
  "lower_char c =
     (let n = (of_char c :: nat) in if 65 \<le> n \<and> n \<le> 90 then char_of (n + 32) else c)"

definition lower :: "string \<Rightarrow> string" where
  "lower s = map lower_char s"

definition is_word_char :: "char \<Rightarrow> bool" where
  \<comment> \<open>the character class \<^verbatim>\<open>[a-z']\<close>\<close>
  "is_word_char c = (let n = (of_char c :: nat) in (97 \<le> n \<and> n \<le> 122) \<or> n = 39)"

function findall_word :: "string \<Rightarrow> string list" where
  \<comment> \<open>\<^verbatim>\<open>_word_re.findall\<close> for \<^verbatim>\<open>[a-z']+\<close>: leftmost, greedy, non-overlapping\<close>
  "findall_word [] = []"
| "findall_word (c # cs) =
     (if is_word_char c
      then (c # takeWhile is_word_char cs) # findall_word (dropWhile is_word_char cs)
      else findall_word cs)"
  by pat_completeness auto
termination
  by (relation "measure length") (auto simp: less_Suc_eq_le length_dropWhile_le)

definition tokenize :: "string \<Rightarrow> string list" where
  "tokenize text = map lower (findall_word (lower text))"

fun join_space :: "string list \<Rightarrow> string" where
  \<comment> \<open>\<^verbatim>\<open>" ".join(ts)\<close>\<close>
  "join_space [] = []"
| "join_space [t] = t"
| "join_space (t # ts) = t @ '' '' @ join_space ts"

definition is_space :: "char \<Rightarrow> bool" where
  \<comment> \<open>the ASCII characters that \<^verbatim>\<open>str.strip()\<close> removes\<close>
  "is_space c = (let n = (of_char c :: nat) in (9 \<le> n \<and> n \<le> 13) \<or> (28 \<le> n \<and> n \<le> 32))"

definition strip :: "string \<Rightarrow> string" where
  "strip s = rev (dropWhile is_space (rev (dropWhile is_space s)))"

inductive max_runs :: "string \<Rightarrow> string list \<Rightarrow> bool" where
  \<comment> \<open>The tokenizer as the specification words it: the tokens are the maximal runs of
      word characters of the text, in order, everything else being a separator.\<close>
  runs_end: "max_runs [] []"
| runs_sep: "\<not> is_word_char c \<Longrightarrow> max_runs cs ts \<Longrightarrow> max_runs (c # cs) ts"
| runs_tok: "t \<noteq> [] \<Longrightarrow> list_all is_word_char t \<Longrightarrow>
             (case rest of [] \<Rightarrow> True | c # _ \<Rightarrow> \<not> is_word_char c) \<Longrightarrow>
             max_runs rest ts \<Longrightarrow> max_runs (t @ rest) (t # ts)"

subsection \<open>The VAD lexicon\<close>

type_synonym vad = "rat \<times> rat \<times> rat"
type_synonym phrase_dict = "(string list \<times> vad) list"
type_synonym index = "(string \<times> (nat \<times> phrase_dict) list) list"

record lexicon =
  term_dict :: "(string \<times> vad) list"
  index_by_first :: index

record vad_row =
  \<comment> \<open>One row of the CSV reader: \<^verbatim>\<open>row.get("term")\<close>, and \<^verbatim>\<open>float(row[...])\<close> for the
      three numeric columns, \<open>None\<close> where the column is absent or does not parse.\<close>
  row_term :: "string option"
  row_valence :: "rat option"
  row_arousal :: "rat option"
  row_dominance :: "rat option"

definition max_ngram :: nat where
  "max_ngram = 4"

definition norm01 :: "rat \<Rightarrow> rat" where
  "norm01 x = max 0 (min 1 ((x + 1) / 2))"

definition index_set :: "string \<Rightarrow> nat \<Rightarrow> string list \<Rightarrow> vad \<Rightarrow> index \<Rightarrow> index" where
  \<comment> \<open>\<^verbatim>\<open>index_by_first[first][L][tuple(toks)] = vad\<close> on the nested \<^verbatim>\<open>defaultdict\<close>\<close>
  "index_set first L toks e ix =
     (let by_len = dict_get_or ix first [];
          d = dict_get_or by_len L []
      in dict_set first (dict_set L (dict_set toks e d) by_len) ix)"

definition load_row :: "vad_row \<Rightarrow> (string \<times> vad) list \<times> index \<Rightarrow> (string \<times> vad) list \<times> index" where
  \<comment> \<open>the body of \<^verbatim>\<open>for row in reader\<close>\<close>
  "load_row row acc =
     (let term_raw = lower (strip (case row_term row of None \<Rightarrow> [] | Some t \<Rightarrow> t)) in
      if term_raw = [] then acc
      else let toks = tokenize term_raw in
      if toks = [] then acc
      else (case (row_valence row, row_arousal row, row_dominance row) of
              (Some v, Some a, Some d) \<Rightarrow>
                (let e = (norm01 v, norm01 a, norm01 d);
                     key = join_space toks;
                     td = dict_set key e (fst acc);
                     first = hd toks;
                     L = length toks
                 in if L \<le> max_ngram then (td, index_set first L toks e (snd acc))
                    else (td, snd acc))
            | _ \<Rightarrow> acc))"

definition load_gitlab_vad :: "vad_row list \<Rightarrow> lexicon \<Rightarrow> lexicon" where
  "load_gitlab_vad rows lx =
     (if term_dict lx \<noteq> [] then lx
      else (let acc = fold load_row rows ([], [])
            in \<lparr>term_dict = fst acc, index_by_first = snd acc\<rparr>))"

definition empty_lexicon :: lexicon where
  \<comment> \<open>the module's initial \<^verbatim>\<open>_term_dict = {}\<close>, \<^verbatim>\<open>_index_by_first = {}\<close>\<close>
  "empty_lexicon = \<lparr>term_dict = [], index_by_first = []\<rparr>"

subsection \<open>The phrase matcher\<close>

definition phrase_at :: "index \<Rightarrow> string list \<Rightarrow> nat \<Rightarrow> nat \<Rightarrow> vad option" where
  \<comment> \<open>\<^verbatim>\<open>_index_by_first[first][L].get(tuple(toks[i:i+L]))\<close> for \<^verbatim>\<open>first = toks[i]\<close>. Reading
      a missing length from the \<^verbatim>\<open>defaultdict\<close> inserts an empty inner dictionary, which no
      later lookup can tell from a missing one; the index is therefore not threaded.\<close>
  "phrase_at ix toks i L =
     (case map_of ix (toks ! i) of
        None \<Rightarrow> None
      | Some by_len \<Rightarrow>
          (case map_of by_len L of
             None \<Rightarrow> None
           | Some d \<Rightarrow> map_of d (take L (drop i toks))))"

fun try_lengths :: "index \<Rightarrow> string list \<Rightarrow> nat \<Rightarrow> nat \<Rightarrow> (nat \<times> vad) option" where
  \<comment> \<open>\<^verbatim>\<open>for L in range(k, 0, -1)\<close>: the length and entry of the first hit, if any\<close>
  "try_lengths ix toks i 0 = None"
| "try_lengths ix toks i (Suc k) =
     (if map_of ix (toks ! i) = None then None
      else (case phrase_at ix toks i (Suc k) of
              Some entry \<Rightarrow> Some (Suc k, entry)
            | None \<Rightarrow> try_lengths ix toks i k))"

record scan_state =
  pos :: nat
  counts :: "(string \<times> nat) list"
  matches :: "(string \<times> vad) list"

definition counter_get :: "(string \<times> nat) list \<Rightarrow> string \<Rightarrow> nat" where
  \<comment> \<open>\<^verbatim>\<open>counts[k]\<close> on a \<^verbatim>\<open>Counter\<close>: 0 for a key never counted\<close>
  "counter_get c k = dict_get_or c k 0"

definition scan_step :: "index \<Rightarrow> string list \<Rightarrow> scan_state \<Rightarrow> scan_state" where
  \<comment> \<open>one iteration of \<^verbatim>\<open>while i < n\<close>\<close>
  "scan_step ix toks s =
     (case try_lengths ix toks (pos s) (min max_ngram (length toks - pos s)) of
        Some (L, entry) \<Rightarrow>
          (let term_key = join_space (take L (drop (pos s) toks))
           in \<lparr>pos = pos s + L,
               counts = dict_set term_key (counter_get (counts s) term_key + 1) (counts s),
               matches = matches s @ [(term_key, entry)]\<rparr>)
      | None \<Rightarrow> s\<lparr>pos := pos s + 1\<rparr>)"

lemma try_lengths_bounds:
  "try_lengths ix toks i k = Some (L, e) \<Longrightarrow> 1 \<le> L \<and> L \<le> k"
  by (induction k) (auto split: if_splits option.splits)

lemma scan_step_pos:
  assumes "pos s < length toks"
  shows "pos s < pos (scan_step ix toks s) \<and> pos (scan_step ix toks s) \<le> length toks"
proof (cases "try_lengths ix toks (pos s) (min max_ngram (length toks - pos s))")
  case None
  with assms show ?thesis by (simp add: scan_step_def)
next
  case (Some r)
  obtain L e where r: "r = (L, e)" by (cases r)
  from Some r have "1 \<le> L \<and> L \<le> min max_ngram (length toks - pos s)"
    by (intro try_lengths_bounds[of ix toks "pos s" _ L e]) simp
  with assms Some r show ?thesis by (auto simp add: scan_step_def Let_def)
qed

function scan_loop :: "index \<Rightarrow> string list \<Rightarrow> scan_state \<Rightarrow> scan_state" where
  "scan_loop ix toks s =
     (if pos s < length toks then scan_loop ix toks (scan_step ix toks s) else s)"
  by pat_completeness auto
termination
proof (relation "measure (\<lambda>(ix, toks, s). length toks - pos s)")
  show "wf (measure (\<lambda>(ix, toks, s). length toks - pos s))" by simp
next
  fix ix :: index and toks :: "string list" and s :: scan_state
  assume "pos s < length toks"
  then have "pos s < pos (scan_step ix toks s)"
    using scan_step_pos[of s toks ix] by simp
  with \<open>pos s < length toks\<close>
  show "((ix, toks, scan_step ix toks s), (ix, toks, s))
          \<in> measure (\<lambda>(ix, toks, s). length toks - pos s)"
    by simp
qed

function scan_spans :: "index \<Rightarrow> string list \<Rightarrow> nat \<Rightarrow> (nat \<times> nat) list" where
  \<comment> \<open>The same loop, keeping for every recorded match the position where it starts and
      its length instead of the phrase (lemma \<open>scan_loop_spans\<close> ties the two).\<close>
  "scan_spans ix toks i =
     (if i < length toks
      then (case try_lengths ix toks i (min max_ngram (length toks - i)) of
              Some (L, entry) \<Rightarrow> (i, L) # scan_spans ix toks (i + L)
            | None \<Rightarrow> scan_spans ix toks (i + 1))
      else [])"
  by pat_completeness auto
termination
proof (relation "measure (\<lambda>(ix, toks, i). length toks - i)")
  show "wf (measure (\<lambda>(ix, toks, i). length toks - i))" by simp
next
  fix ix :: index and toks :: "string list" and i :: nat
  assume "i < length toks"
  then show "((ix, toks, i + 1), (ix, toks, i)) \<in> measure (\<lambda>(ix, toks, i). length toks - i)"
    by simp
next
  fix ix :: index and toks :: "string list" and i :: nat and x2 :: "nat \<times> vad" and L :: nat and e :: vad
  assume "i < length toks"
    and "try_lengths ix toks i (min max_ngram (length toks - i)) = Some x2"
    and "(L, e) = x2"
  with try_lengths_bounds[of ix toks i "min max_ngram (length toks - i)" L e]
  show "((ix, toks, i + L), (ix, toks, i)) \<in> measure (\<lambda>(ix, toks, i). length toks - i)"
    by auto
qed

definition weighted_sums :: "(string \<times> nat) list \<Rightarrow> (string \<times> vad) list \<Rightarrow> nat \<times> rat \<times> rat \<times> rat" where
  \<comment> \<open>\<^verbatim>\<open>for term_key, (v,a,d) in matches\<close>: the running \<^verbatim>\<open>(sum_w, sum_v, sum_a, sum_d)\<close>\<close>
  "weighted_sums cnts ms =
     fold (\<lambda>(term_key, (v, a, d)) (sum_w, sum_v, sum_a, sum_d).
             (let c = counter_get cnts term_key
              in (sum_w + c, sum_v + v * of_nat c, sum_a + a * of_nat c, sum_d + d * of_nat c)))
          ms (0, 0, 0, 0)"

definition vad_from_text_gitlab :: "vad_row list \<Rightarrow> lexicon \<Rightarrow> string \<Rightarrow> vad option \<times> lexicon" where
  "vad_from_text_gitlab rows lx text =
     (let lx' = load_gitlab_vad rows lx;
          toks = tokenize text;
          n = length toks
      in if n = 0 then (None, lx')
         else (let s = scan_loop (index_by_first lx') toks \<lparr>pos = 0, counts = [], matches = []\<rparr>
               in if matches s = [] then (None, lx')
                  else (case weighted_sums (counts s) (matches s) of
                          (sum_w, sum_v, sum_a, sum_d) \<Rightarrow>
                            if sum_w = 0 then (None, lx')
                            else (Some (py_round4 (sum_v / of_nat sum_w),
                                        py_round4 (sum_a / of_nat sum_w),
                                        py_round4 (sum_d / of_nat sum_w)), lx'))))"

subsection \<open>Projections into mood space\<close>

definition music_mood_from_vad :: "rat \<Rightarrow> rat \<Rightarrow> rat \<Rightarrow> mood" where
  "music_mood_from_vad v a d =
     (let valence = v;
          energy = a;
          focus = max 0 (min 1 ((1 - 7/10 * a) + 2/10 * d));
          danceability = max 0 (min 1 (35/100 + 45/100 * a + 20/100 * max 0 (v - 1/2)));
          tempo_pref = a
      in [(''valence'', py_round4 valence),
          (''energy'', py_round4 energy),
          (''focus'', py_round4 focus),
          (''danceability'', py_round4 danceability),
          (''tempo_pref'', py_round4 tempo_pref)])"

definition add_emotion :: "string \<times> rat \<Rightarrow> mood \<Rightarrow> mood" where
  \<comment> \<open>the body of \<^verbatim>\<open>for label, prob in emotions.items()\<close>\<close>
  "add_emotion lp agg =
     (case map_of EMOTION_TO_MOOD (fst lp) of
        None \<Rightarrow> agg
      | Some mp \<Rightarrow> fold (\<lambda>(dim, val) ag. dict_iadd dim (snd lp * val) ag) mp agg)"

definition mood_from_emotions :: "(string \<times> rat) list \<Rightarrow> mood" where
  \<comment> \<open>lines 236-247 of \<^verbatim>\<open>infer_text\<close>: the mood of an emotion distribution\<close>
  "mood_from_emotions emo =
     (if emo = [] then DEFAULT_MOOD
      else (let total = sum_list (map snd emo);
                totalsum = (if total = 0 then 1 else total);
                agg = fold add_emotion emo (map (\<lambda>k. (k, 0)) (map fst DEFAULT_MOOD))
            in fold (\<lambda>(dim, x) m. dict_set dim (py_round4 (x / totalsum)) m) agg DEFAULT_MOOD))"

subsection \<open>The route\<close>

record infer_result =
  emotions :: "(string \<times> rat) list"
  mood :: mood
  vad :: "vad option"
  source :: string

type_synonym classifier = "(string \<Rightarrow> (string \<times> rat) list option) option"

definition classify :: "classifier \<Rightarrow> string \<Rightarrow> (string \<times> rat) list" where
  \<comment> \<open>Step A of \<^verbatim>\<open>infer_text\<close>. The outer \<open>None\<close> is \<^verbatim>\<open>get_pipeline()\<close> returning
      \<^verbatim>\<open>None\<close>, the inner one any exception inside the \<^verbatim>\<open>try\<close>; otherwise the list of
      label/score pairs becomes a dictionary keyed by the lowercased label.\<close>
  "classify nlp text =
     (case nlp of
        None \<Rightarrow> []
      | Some f \<Rightarrow>
          (case f text of
             None \<Rightarrow> []
           | Some scores \<Rightarrow> fold (\<lambda>(label, score) d. dict_set (lower label) score d) scores []))"

definition infer_text :: "classifier \<Rightarrow> vad_row list \<Rightarrow> lexicon \<Rightarrow> string \<Rightarrow> infer_result \<times> lexicon" where
  "infer_text nlp rows lx inp =
     (let text = strip inp in
      if text = [] then (\<lparr>emotions = [], mood = DEFAULT_MOOD, vad = None, source = ''default''\<rparr>, lx)
      else
       (let emo = classify nlp text;
            mood_emo = mood_from_emotions emo;
            (vd, lx') = vad_from_text_gitlab rows lx text;
            mood_vad = (case vd of None \<Rightarrow> None | Some (v, a, d) \<Rightarrow> Some (music_mood_from_vad v a d))
        in (case mood_vad of
              Some mv \<Rightarrow>
                if emo \<noteq> []
                then (\<lparr>emotions = emo, mood = blend_moods mood_emo mv (4/10), vad = vd,
                       source = ''blend(emotions,VAD-gitlab)''\<rparr>, lx')
                else (\<lparr>emotions = emo, mood = mv, vad = vd, source = ''VAD-gitlab''\<rparr>, lx')
            | None \<Rightarrow>
                if emo \<noteq> []
                then (\<lparr>emotions = emo, mood = mood_emo, vad = vd, source = ''emotions''\<rparr>, lx')
                else (\<lparr>emotions = emo, mood = DEFAULT_MOOD, vad = vd, source = ''default''\<rparr>, lx'))))"

subsection \<open>Specification-side notions\<close>

definition valid_mood :: "mood \<Rightarrow> bool" where
  \<comment> \<open>the mood-vector invariant: exactly the five dimensions, in order, each in [0,1]\<close>
  "valid_mood m = (map fst m = [''valence'', ''energy'', ''focus'', ''danceability'', ''tempo_pref'']
                   \<and> list_all (\<lambda>kv. 0 \<le> snd kv \<and> snd kv \<le> 1) m)"

definition emotion_weight :: "string \<times> rat \<Rightarrow> string \<Rightarrow> rat" where
  \<comment> \<open>what one label contributes to the numerator of a dimension: its probability times
      the table value for a recognised label, nothing for an unrecognised one\<close>
  "emotion_weight lp dm =
     (case map_of EMOTION_TO_MOOD (fst lp) of None \<Rightarrow> 0 | Some mp \<Rightarrow> snd lp * dict_get_or mp dm 0)"

definition emotion_numerator :: "(string \<times> rat) list \<Rightarrow> string \<Rightarrow> rat" where
  \<comment> \<open>the probability-weighted sum over the recognised labels, as the specification words it\<close>
  "emotion_numerator emo dm = sum_list (map (\<lambda>lp. emotion_weight lp dm) emo)"

definition unit_vad :: "vad \<Rightarrow> bool" where
  \<comment> \<open>a VAD triple with every component in [0,1]\<close>
  "unit_vad e = (case e of (v, a, d) \<Rightarrow> 0 \<le> v \<and> v \<le> 1 \<and> 0 \<le> a \<and> a \<le> 1 \<and> 0 \<le> d \<and> d \<le> 1)"

definition index_ok :: "index \<Rightarrow> bool" where
  \<comment> \<open>every entry of the index is such a triple; true of the empty index and kept by the loader\<close>
  "index_ok ix = list_all (\<lambda>fb. list_all (\<lambda>ld. list_all (\<lambda>pe. unit_vad (snd pe)) (snd ld)) (snd fb)) ix"

definition span_phrase :: "index \<Rightarrow> string list \<Rightarrow> nat \<times> nat \<Rightarrow> string \<times> vad" where
  \<comment> \<open>the match that the scan records for a span: the joined phrase and its entry\<close>
  "span_phrase ix toks sp = (join_space (take (snd sp) (drop (fst sp) toks)), the (phrase_at ix toks (fst sp) (snd sp)))"

definition covers :: "nat \<Rightarrow> nat \<times> nat \<Rightarrow> bool" where
  \<comment> \<open>the token at index \<open>k\<close> lies inside the span (start, length)\<close>
  "covers k sp = (fst sp \<le> k \<and> k < fst sp + snd sp)"

subsection \<open>Example inputs\<close>

definition calm_glad_rows :: "vad_row list" where
  \<comment> \<open>a two-row lexicon file: VAD (0.2, 0.2, 0.2) and (0.8, 0.8, 0.8) after normalisation\<close>
  "calm_glad_rows =
     [\<lparr>row_term = Some ''calm'', row_valence = Some (- 6/10), row_arousal = Some (- 6/10), row_dominance = Some (- 6/10)\<rparr>,
      \<lparr>row_term = Some ''glad'', row_valence = Some (6/10), row_arousal = Some (6/10), row_dominance = Some (6/10)\<rparr>]"

definition not_good_rows :: "vad_row list" where
  \<comment> \<open>a two-row lexicon file with a 2-gram and the 1-gram that ends it\<close>
  "not_good_rows =
     [\<lparr>row_term = Some ''not good'', row_valence = Some (- 1/2), row_arousal = Some 0, row_dominance = Some 0\<rparr>,
      \<lparr>row_term = Some ''good'', row_valence = Some (1/2), row_arousal = Some 0, row_dominance = Some 0\<rparr>]"

definition not_good_index :: index where
  \<comment> \<open>the index that loading \<open>not_good_rows\<close> into the empty lexicon builds\<close>
  "not_good_index = index_by_first (load_gitlab_vad not_good_rows empty_lexicon)"

definition joy_classifier :: classifier where
  \<comment> \<open>a classifier that answers every text with the same two scores\<close>
  "joy_classifier = Some (\<lambda>t. Some [(''Joy'', 1/2), (''sadness'', 1/4)])"

declare scan_loop.simps [simp del]
declare scan_spans.simps [simp del]

section \<open>The tokenizer\<close>

lemma lower_char_word: "is_word_char c \<Longrightarrow> lower_char c = c"
  by (auto simp: is_word_char_def lower_char_def Let_def)

lemma lower_word: "list_all is_word_char t \<Longrightarrow> lower t = t"
  by (induction t) (auto simp: lower_def lower_char_word)

lemma findall_word_tokens:
  "t \<in> set (findall_word s) \<Longrightarrow> t \<noteq> [] \<and> list_all is_word_char t"
proof (induction s rule: findall_word.induct)
  case 1
  then show ?case by simp
next
  case (2 c cs)
  show ?case
  proof (cases "is_word_char c")
    case False
    with 2 show ?thesis by simp
  next
    case True
    with "2.prems" have "t = c # takeWhile is_word_char cs \<or> t \<in> set (findall_word (dropWhile is_word_char cs))"
      by simp
    then show ?thesis
    proof
      assume "t = c # takeWhile is_word_char cs"
      with True show ?thesis by (auto simp: list_all_iff dest: set_takeWhileD)
    next
      assume "t \<in> set (findall_word (dropWhile is_word_char cs))"
      with "2.IH"(1)[OF True] show ?thesis by simp
    qed
  qed
qed

lemma space_not_word: "\<not> is_word_char (CHR '' '')"
  by code_simp

lemma lower_char_space: "lower_char (CHR '' '') = CHR '' ''"
  by code_simp

lemma tokenize_findall: "tokenize text = findall_word (lower text)"
proof -
  have "map lower (findall_word s) = findall_word s" for s
  proof (rule map_idI)
    fix t assume "t \<in> set (findall_word s)"
    then have "list_all is_word_char t" using findall_word_tokens by blast
    then show "lower t = t" by (rule lower_word)
  qed
  then show ?thesis by (simp add: tokenize_def)
qed

lemma findall_word_max_runs: "max_runs s (findall_word s)"
proof (induction s rule: findall_word.induct)
  case 1
  show ?case by (simp add: runs_end)
next
  case (2 c cs)
  show ?case
  proof (cases "is_word_char c")
    case False
    with 2 show ?thesis by (simp add: runs_sep)
  next
    case True
    let ?t = "c # takeWhile is_word_char cs"
    let ?rest = "dropWhile is_word_char cs"
    have t: "?t \<noteq> []" "list_all is_word_char ?t"
      using True by (auto simp: list_all_iff dest: set_takeWhileD)
    have r: "(case ?rest of [] \<Rightarrow> True | x # _ \<Rightarrow> \<not> is_word_char x)"
      by (auto split: list.splits simp: dropWhile_eq_Cons_conv)
    from 2 True have "max_runs ?rest (findall_word ?rest)" by simp
    from runs_tok[OF t r this] True show ?thesis by simp
  qed
qed

lemma findall_word_run:
  assumes "t \<noteq> []" and "list_all is_word_char t"
    and "(case rest of [] \<Rightarrow> True | x # _ \<Rightarrow> \<not> is_word_char x)"
  shows "findall_word (t @ rest) = t # findall_word rest"
proof -
  from assms(1) obtain c t' where t: "t = c # t'" by (cases t) auto
  from assms(2) t have c: "is_word_char c" and t': "\<forall>x\<in>set t'. is_word_char x"
    by (auto simp: list_all_iff)
  from assms(3) have tw: "takeWhile is_word_char rest = []" and dw: "dropWhile is_word_char rest = rest"
    by (cases rest; simp)+
  from t' have "takeWhile is_word_char (t' @ rest) = t'" "dropWhile is_word_char (t' @ rest) = rest"
    by (simp_all add: tw dw)
  with c t show ?thesis by simp
qed


lemma max_runs_unique: "max_runs s ts \<Longrightarrow> ts = findall_word s"
  by (induction rule: max_runs.induct) (simp_all add: findall_word_run)

lemma findall_word_join:
  "list_all (\<lambda>t. t \<noteq> [] \<and> list_all is_word_char t) ts \<Longrightarrow> findall_word (join_space ts) = ts"
proof (induction ts rule: join_space.induct)
  case 1
  show ?case by simp
next
  case (2 t)
  then show ?case using findall_word_run[of t "[]"] by simp
next
  case (3 t u us)
  then have "findall_word (t @ CHR '' '' # join_space (u # us)) = t # findall_word (CHR '' '' # join_space (u # us))"
    by (intro findall_word_run) (simp_all add: space_not_word)
  with 3 show ?case by (simp add: space_not_word)
qed

lemma lower_join:
  "list_all (list_all is_word_char) ts \<Longrightarrow> lower (join_space ts) = join_space ts"
proof (induction ts rule: join_space.induct)
  case (3 t u us)
  then have "lower t = t" "lower (join_space (u # us)) = join_space (u # us)"
    by (simp_all add: lower_word)
  then show ?case by (simp add: lower_def lower_char_space)
qed (simp_all add: lower_def lower_word[unfolded lower_def])

lemma tokenize_tokens: "list_all (\<lambda>t. t \<noteq> [] \<and> list_all is_word_char t) (tokenize s)"
proof -
  have "\<forall>t\<in>set (findall_word (lower s)). t \<noteq> [] \<and> list_all is_word_char t"
    using findall_word_tokens by blast
  then show ?thesis
    unfolding tokenize_findall by (rule iffD2[OF list_all_iff])
qed

lemma tokenize_idem: "tokenize (join_space (tokenize s)) = tokenize s"
proof -
  have "list_all (list_all is_word_char) (tokenize s)"
    using tokenize_tokens[of s] by (simp add: list_all_iff)
  then have "lower (join_space (tokenize s)) = join_space (tokenize s)" by (rule lower_join)
  then show ?thesis
    using findall_word_join[OF tokenize_tokens[of s]] by (simp add: tokenize_findall[of "join_space _"])
qed

text \<open>
  Claim C7. The tokenizer is a total, deterministic function. For every input, each token
  is non-empty, consists of characters of \<^verbatim>\<open>[a-z']\<close> only and is its own lowercase form;
  the token list is exactly the list of maximal runs of such characters in the lowercased
  text; \<^verbatim>\<open>tokenize("I'm Happy!!")\<close> is \<^verbatim>\<open>["i'm", "happy"]\<close>; and tokenizing the tokens
  joined by single spaces gives the same tokens again.
\<close>

theorem tokenize_total_lowercase_maximal_idempotent:
  "(\<forall>text. \<forall>t \<in> set (tokenize text). t \<noteq> [] \<and> list_all is_word_char t \<and> lower t = t)
   \<and> (\<forall>text ts. max_runs (lower text) ts \<longleftrightarrow> ts = tokenize text)
   \<and> tokenize ''I'm Happy!!'' = [''i'm'', ''happy'']
   \<and> (\<forall>text. tokenize (join_space (tokenize text)) = tokenize text)"
proof -
  have a: "\<forall>s. \<forall>t \<in> set (tokenize s). t \<noteq> [] \<and> list_all is_word_char t \<and> lower t = t"
  proof (intro allI ballI)
    fix s t assume "t \<in> set (tokenize s)"
    with tokenize_tokens[of s] have "t \<noteq> [] \<and> list_all is_word_char t"
      by (simp add: list_all_iff[of _ "tokenize s"])
    then show "t \<noteq> [] \<and> list_all is_word_char t \<and> lower t = t"
      by (simp add: lower_word)
  qed
  have b: "\<forall>s ts. max_runs (lower s) ts \<longleftrightarrow> ts = tokenize s"
    using max_runs_unique findall_word_max_runs by (auto simp: tokenize_findall)
  have c: "tokenize ''I'm Happy!!'' = [''i'm'', ''happy'']" by code_simp
  from a b c tokenize_idem show ?thesis by blast
qed

theorem tokenize_total_lowercase_maximal_idempotent_witness:
  "''happy'' \<in> set (tokenize ''I'm Happy!!'')
   \<and> ''happy'' \<noteq> [] \<and> list_all is_word_char ''happy'' \<and> lower ''happy'' = ''happy''
   \<and> max_runs (lower ''I'm Happy!!'') [''i'm'', ''happy'']
   \<and> tokenize (join_space [''i'm'', ''happy'']) = [''i'm'', ''happy'']"
proof -
  note T = tokenize_total_lowercase_maximal_idempotent
  from T have c: "tokenize ''I'm Happy!!'' = [''i'm'', ''happy'']" by blast
  then have m: "''happy'' \<in> set (tokenize ''I'm Happy!!'')" by simp
  from T have "\<forall>t \<in> set (tokenize ''I'm Happy!!''). t \<noteq> [] \<and> list_all is_word_char t \<and> lower t = t"
    by blast
  with m have p: "''happy'' \<noteq> [] \<and> list_all is_word_char ''happy'' \<and> lower ''happy'' = ''happy''"
    by blast
  from T have "max_runs (lower ''I'm Happy!!'') (tokenize ''I'm Happy!!'')" by blast
  with c have r: "max_runs (lower ''I'm Happy!!'') [''i'm'', ''happy'']" by simp
  from T have "tokenize (join_space (tokenize ''I'm Happy!!'')) = tokenize ''I'm Happy!!''" by blast
  with c have i: "tokenize (join_space [''i'm'', ''happy'']) = [''i'm'', ''happy'']" by simp
  from m p r i show ?thesis by blast
qed

section \<open>The phrase matcher\<close>


lemma try_lengths_Some:
  "try_lengths ix toks i k = Some (L, e) \<Longrightarrow>
     1 \<le> L \<and> L \<le> k \<and> phrase_at ix toks i L = Some e
     \<and> (\<forall>L'. L < L' \<and> L' \<le> k \<longrightarrow> phrase_at ix toks i L' = None)"
proof (induction k)
  case 0
  then show ?case by simp
next
  case (Suc k)
  show ?case
  proof (cases "map_of ix (toks ! i) = None")
    case True
    with Suc.prems show ?thesis by simp
  next
    case False
    then obtain bl where bl: "map_of ix (toks ! i) = Some bl" by auto
    show ?thesis
    proof (cases "phrase_at ix toks i (Suc k)")
      case None
      with bl Suc.prems have "try_lengths ix toks i k = Some (L, e)" by simp
      from Suc.IH[OF this] None show ?thesis
        by (auto simp: le_Suc_eq)
    next
      case (Some e')
      with bl Suc.prems have "L = Suc k" "e = e'" by simp_all
      with Some show ?thesis by auto
    qed
  qed
qed

lemma try_lengths_None:
  "try_lengths ix toks i k = None \<Longrightarrow> 1 \<le> L \<Longrightarrow> L \<le> k \<Longrightarrow> phrase_at ix toks i L = None"
proof (induction k)
  case 0
  then show ?case by simp
next
  case (Suc k)
  show ?case
  proof (cases "map_of ix (toks ! i) = None")
    case True
    then show ?thesis by (simp add: phrase_at_def)
  next
    case False
    then obtain bl where bl: "map_of ix (toks ! i) = Some bl" by auto
    with Suc.prems(1) have a: "phrase_at ix toks i (Suc k) = None" and b: "try_lengths ix toks i k = None"
      by (auto split: option.splits)
    show ?thesis
    proof (cases "L = Suc k")
      case True
      with a show ?thesis by simp
    next
      case False
      with Suc.prems have "L \<le> k" by simp
      from Suc.IH[OF b Suc.prems(2) this] show ?thesis .
    qed
  qed
qed

lemma scan_step_longest:
  assumes "pos s < length toks"
    and "1 \<le> L0" and "L0 \<le> min 4 (length toks - pos s)"
    and "phrase_at ix toks (pos s) L0 \<noteq> None"
  shows "\<exists>L e. L0 \<le> L \<and> L \<le> min 4 (length toks - pos s)
           \<and> phrase_at ix toks (pos s) L = Some e
           \<and> (\<forall>L'. L < L' \<and> L' \<le> min 4 (length toks - pos s) \<longrightarrow> phrase_at ix toks (pos s) L' = None)
           \<and> pos (scan_step ix toks s) = pos s + L
           \<and> matches (scan_step ix toks s) = matches s @ [(join_space (take L (drop (pos s) toks)), e)]"
proof -
  let ?k = "min max_ngram (length toks - pos s)"
  have k: "?k = min 4 (length toks - pos s)" by (simp add: max_ngram_def)
  show ?thesis
  proof (cases "try_lengths ix toks (pos s) ?k")
    case None
    from try_lengths_None[OF None assms(2)] assms(3,4) k show ?thesis by simp
  next
    case (Some r)
    obtain L e where r: "r = (L, e)" by (cases r)
    from Some r have t: "try_lengths ix toks (pos s) ?k = Some (L, e)" by simp
    note P = try_lengths_Some[OF t]
    have "L0 \<le> L"
    proof (rule ccontr)
      assume "\<not> L0 \<le> L"
      then have "L < L0 \<and> L0 \<le> ?k" using assms(3) k by simp
      with P have "phrase_at ix toks (pos s) L0 = None" by blast
      with assms(4) show False by simp
    qed
    moreover have "pos (scan_step ix toks s) = pos s + L"
      "matches (scan_step ix toks s) = matches s @ [(join_space (take L (drop (pos s) toks)), e)]"
      using t by (simp_all add: scan_step_def Let_def)
    ultimately show ?thesis using P k
      by (intro exI[of _ L] exI[of _ e]) simp
  qed
qed


lemma scan_step_none:
  assumes "pos s < length toks"
    and "\<forall>L. 1 \<le> L \<and> L \<le> min 4 (length toks - pos s) \<longrightarrow> phrase_at ix toks (pos s) L = None"
  shows "scan_step ix toks s = s\<lparr>pos := pos s + 1\<rparr>"
proof (cases "try_lengths ix toks (pos s) (min max_ngram (length toks - pos s))")
  case None
  then show ?thesis by (simp add: scan_step_def)
next
  case (Some r)
  obtain L e where r: "r = (L, e)" by (cases r)
  from Some r have "try_lengths ix toks (pos s) (min max_ngram (length toks - pos s)) = Some (L, e)"
    by simp
  from try_lengths_Some[OF this] have "1 \<le> L \<and> L \<le> min 4 (length toks - pos s)"
    and "phrase_at ix toks (pos s) L = Some e"
    by (simp_all add: max_ngram_def)
  with assms(2) show ?thesis by auto
qed

lemma scan_step_cases:
  assumes "pos s < length toks"
  shows "(\<exists>L e. 1 \<le> L \<and> L \<le> min 4 (length toks - pos s)
            \<and> pos (scan_step ix toks s) = pos s + L
            \<and> matches (scan_step ix toks s) = matches s @ [(join_space (take L (drop (pos s) toks)), e)])
         \<or> (pos (scan_step ix toks s) = pos s + 1 \<and> matches (scan_step ix toks s) = matches s)"
proof (cases "try_lengths ix toks (pos s) (min max_ngram (length toks - pos s))")
  case None
  then show ?thesis by (simp add: scan_step_def)
next
  case (Some r)
  obtain L e where r: "r = (L, e)" by (cases r)
  from Some r have t: "try_lengths ix toks (pos s) (min max_ngram (length toks - pos s)) = Some (L, e)"
    by simp
  from try_lengths_bounds[OF t] have "1 \<le> L \<and> L \<le> min 4 (length toks - pos s)"
    by (simp add: max_ngram_def)
  moreover have "pos (scan_step ix toks s) = pos s + L"
    "matches (scan_step ix toks s) = matches s @ [(join_space (take L (drop (pos s) toks)), e)]"
    using t by (simp_all add: scan_step_def Let_def)
  ultimately show ?thesis by blast
qed

lemma scan_loop_iterations:
  "pos s \<le> length toks \<Longrightarrow>
     \<exists>k \<le> length toks - pos s.
        scan_loop ix toks s = (scan_step ix toks ^^ k) s
        \<and> pos (scan_loop ix toks s) = length toks
        \<and> (\<forall>j < k. pos ((scan_step ix toks ^^ j) s) < length toks)"
proof (induction ix toks s rule: scan_loop.induct)
  case (1 ix toks s)
  show ?case
  proof (cases "pos s < length toks")
    case False
    with "1.prems" have "scan_loop ix toks s = s" "pos s = length toks"
      by (simp_all add: scan_loop.simps)
    then show ?thesis by (intro exI[of _ 0]) simp
  next
    case True
    let ?s' = "scan_step ix toks s"
    from scan_step_pos[OF True, of ix] have p: "pos s < pos ?s'" "pos ?s' \<le> length toks" by simp_all
    from "1.IH"[OF True p(2)] obtain k where k: "k \<le> length toks - pos ?s'"
      "scan_loop ix toks ?s' = (scan_step ix toks ^^ k) ?s'"
      "pos (scan_loop ix toks ?s') = length toks"
      "\<forall>j < k. pos ((scan_step ix toks ^^ j) ?s') < length toks" by blast
    have l: "scan_loop ix toks s = scan_loop ix toks ?s'"
      using True by (subst scan_loop.simps) simp
    have "Suc k \<le> length toks - pos s" using k(1) p by arith
    moreover have "scan_loop ix toks s = (scan_step ix toks ^^ Suc k) s"
      using l k(2) by (simp add: funpow_swap1)
    moreover have "pos (scan_loop ix toks s) = length toks" using l k(3) by simp
    moreover have "\<forall>j < Suc k. pos ((scan_step ix toks ^^ j) s) < length toks"
    proof (intro allI impI)
      fix j assume j: "j < Suc k"
      show "pos ((scan_step ix toks ^^ j) s) < length toks"
      proof (cases j)
        case 0
        with True show ?thesis by simp
      next
        case (Suc j')
        with j k(4) have "pos ((scan_step ix toks ^^ j') ?s') < length toks" by simp
        with Suc show ?thesis by (simp add: funpow_swap1)
      qed
    qed
    ultimately show ?thesis by blast
  qed
qed

lemma scan_loop_spans:
  "matches (scan_loop ix toks s) = matches s @ map (span_phrase ix toks) (scan_spans ix toks (pos s))"
proof (induction ix toks s rule: scan_loop.induct)
  case (1 ix toks s)
  show ?case
  proof (cases "pos s < length toks")
    case False
    then show ?thesis by (simp add: scan_loop.simps scan_spans.simps)
  next
    case True
    let ?s' = "scan_step ix toks s"
    have l: "scan_loop ix toks s = scan_loop ix toks ?s'"
      using True by (subst scan_loop.simps) simp
    show ?thesis
    proof (cases "try_lengths ix toks (pos s) (min max_ngram (length toks - pos s))")
      case None
      then have "pos ?s' = pos s + 1" "matches ?s' = matches s" by (simp_all add: scan_step_def)
      moreover have "scan_spans ix toks (pos s) = scan_spans ix toks (pos s + 1)"
        using True None by (subst scan_spans.simps) simp
      ultimately show ?thesis using "1.IH"[OF True] l by simp
    next
      case (Some r)
      obtain L e where r: "r = (L, e)" by (cases r)
      from Some r have t: "try_lengths ix toks (pos s) (min max_ngram (length toks - pos s)) = Some (L, e)"
        by simp
      from try_lengths_Some[OF t] have e: "phrase_at ix toks (pos s) L = Some e" by simp
      have "pos ?s' = pos s + L"
        "matches ?s' = matches s @ [(join_space (take L (drop (pos s) toks)), e)]"
        using t by (simp_all add: scan_step_def Let_def)
      moreover have "scan_spans ix toks (pos s) = (pos s, L) # scan_spans ix toks (pos s + L)"
        using True t by (subst scan_spans.simps) simp
      ultimately show ?thesis using "1.IH"[OF True] l e by (simp add: span_phrase_def)
    qed
  qed
qed

lemma scan_spans_range:
  "(i, L) \<in> set (scan_spans ix toks i0) \<Longrightarrow> i0 \<le> i \<and> 1 \<le> L \<and> L \<le> 4 \<and> i + L \<le> length toks"
proof (induction ix toks i0 rule: scan_spans.induct)
  case (1 ix toks i0)
  show ?case
  proof (cases "i0 < length toks")
    case False
    with "1.prems" show ?thesis by (simp add: scan_spans.simps)
  next
    case True
    show ?thesis
    proof (cases "try_lengths ix toks i0 (min max_ngram (length toks - i0))")
      case None
      with True "1.prems" have "(i, L) \<in> set (scan_spans ix toks (i0 + 1))"
        by (subst (asm) scan_spans.simps) simp
      from "1.IH"(1)[OF True None this] show ?thesis by simp
    next
      case (Some r)
      obtain L1 e where r: "r = (L1, e)" by (cases r)
      from Some r have t: "try_lengths ix toks i0 (min max_ngram (length toks - i0)) = Some (L1, e)"
        by simp
      from try_lengths_bounds[OF t] have b: "1 \<le> L1" "L1 \<le> 4" "L1 \<le> length toks - i0"
        by (simp_all add: max_ngram_def)
      from True t "1.prems" have "(i, L) = (i0, L1) \<or> (i, L) \<in> set (scan_spans ix toks (i0 + L1))"
        by (subst (asm) scan_spans.simps) simp
      then show ?thesis
      proof
        assume "(i, L) = (i0, L1)"
        with b True show ?thesis by simp
      next
        assume "(i, L) \<in> set (scan_spans ix toks (i0 + L1))"
        from "1.IH"(2)[OF True Some r[symmetric] this] show ?thesis by simp
      qed
    qed
  qed
qed

lemma scan_spans_before: "k < i0 \<Longrightarrow> filter (covers k) (scan_spans ix toks i0) = []"
  by (auto simp: filter_empty_conv covers_def dest: scan_spans_range)

lemma scan_spans_disjoint:
  "length (filter (covers k) (scan_spans ix toks i0)) \<le> 1"
proof (induction ix toks i0 rule: scan_spans.induct)
  case (1 ix toks i0)
  show ?case
  proof (cases "i0 < length toks")
    case False
    then show ?thesis by (simp add: scan_spans.simps)
  next
    case True
    show ?thesis
    proof (cases "try_lengths ix toks i0 (min max_ngram (length toks - i0))")
      case None
      with True have "scan_spans ix toks i0 = scan_spans ix toks (i0 + 1)"
        by (subst scan_spans.simps) simp
      with "1.IH"(1)[OF True None] show ?thesis by simp
    next
      case (Some r)
      obtain L1 e where r: "r = (L1, e)" by (cases r)
      from Some r have t: "try_lengths ix toks i0 (min max_ngram (length toks - i0)) = Some (L1, e)"
        by simp
      from True t have u: "scan_spans ix toks i0 = (i0, L1) # scan_spans ix toks (i0 + L1)"
        by (subst scan_spans.simps) simp
      show ?thesis
      proof (cases "covers k (i0, L1)")
        case False
        with u "1.IH"(2)[OF True Some r[symmetric]] show ?thesis by simp
      next
        case True
        then have "k < i0 + L1" by (simp add: covers_def)
        from scan_spans_before[OF this] u True show ?thesis by simp
      qed
    qed
  qed
qed

lemma space_not_word_char: "is_space c \<Longrightarrow> \<not> is_word_char c"
  by (auto simp: is_space_def is_word_char_def Let_def)

lemma is_space_lower_char: "is_space (lower_char c) = is_space c"
  by (auto simp: is_space_def lower_char_def Let_def)

lemma lower_dropWhile_space: "lower (dropWhile is_space s) = dropWhile is_space (lower s)"
  by (induction s) (simp_all add: lower_def is_space_lower_char)

lemma lower_rev: "lower (rev s) = rev (lower s)"
  by (simp add: lower_def rev_map)

lemma lower_strip: "lower (strip s) = strip (lower s)"
  by (simp add: strip_def lower_rev lower_dropWhile_space)

lemma findall_word_seps: "\<forall>c\<in>set sp. \<not> is_word_char c \<Longrightarrow> findall_word sp = []"
  by (induction sp) simp_all

lemma while_append_seps:
  "\<forall>c\<in>set sp. \<not> P c \<Longrightarrow>
     takeWhile P (cs @ sp) = takeWhile P cs \<and> dropWhile P (cs @ sp) = dropWhile P cs @ sp"
proof (induction cs)
  case Nil
  then show ?case by (cases sp) simp_all
next
  case (Cons c cs)
  then show ?case by simp
qed

lemma findall_word_append_seps:
  "\<forall>c\<in>set sp. \<not> is_word_char c \<Longrightarrow> findall_word (xs @ sp) = findall_word xs"
proof (induction xs rule: findall_word.induct)
  case 1
  then show ?case by (simp add: findall_word_seps)
next
  case (2 c cs)
  show ?case
  proof (cases "is_word_char c")
    case True
    with 2 while_append_seps[of sp is_word_char cs] show ?thesis by simp
  next
    case False
    with 2 show ?thesis by simp
  qed
qed

lemma findall_word_dropWhile_space: "findall_word (dropWhile is_space s) = findall_word s"
  by (induction s) (simp_all add: space_not_word_char)

lemma findall_word_strip: "findall_word (strip s) = findall_word s"
proof -
  let ?t = "dropWhile is_space s"
  have "?t = rev (dropWhile is_space (rev ?t)) @ rev (takeWhile is_space (rev ?t))"
    by (metis rev_append rev_rev_ident takeWhile_dropWhile_id)
  moreover have "\<forall>c\<in>set (rev (takeWhile is_space (rev ?t))). \<not> is_word_char c"
    by (auto dest: set_takeWhileD space_not_word_char)
  ultimately have "findall_word ?t = findall_word (rev (dropWhile is_space (rev ?t)))"
    using findall_word_append_seps by metis
  then show ?thesis by (simp add: strip_def findall_word_dropWhile_space)
qed

lemma tokenize_strip: "tokenize (strip s) = tokenize s"
  by (simp add: tokenize_findall lower_strip findall_word_strip)

lemma try_lengths_unknown: "map_of ix (toks ! i) = None \<Longrightarrow> try_lengths ix toks i k = None"
  by (cases k) simp_all

lemma scan_loop_unknown:
  "\<forall>t\<in>set toks. map_of ix t = None \<Longrightarrow> matches (scan_loop ix toks s) = matches s"
proof (induction ix toks s rule: scan_loop.induct)
  case (1 ix toks s)
  show ?case
  proof (cases "pos s < length toks")
    case False
    then show ?thesis by (simp add: scan_loop.simps)
  next
    case True
    with "1.prems" have "map_of ix (toks ! pos s) = None" by simp
    then have "scan_step ix toks s = s\<lparr>pos := pos s + 1\<rparr>"
      by (simp add: scan_step_def try_lengths_unknown)
    moreover have "scan_loop ix toks s = scan_loop ix toks (scan_step ix toks s)"
      using True by (subst scan_loop.simps) simp
    ultimately show ?thesis using "1.IH"[OF True "1.prems"] by simp
  qed
qed

lemma vad_from_text_no_match:
  "matches (scan_loop (index_by_first (load_gitlab_vad rows lx)) (tokenize s)
              \<lparr>pos = 0, counts = [], matches = []\<rparr>) = [] \<Longrightarrow>
   fst (vad_from_text_gitlab rows lx s) = None"
  by (simp add: vad_from_text_gitlab_def Let_def)

lemma infer_text_vad:
  "vad (fst (infer_text nlp rows lx s)) =
     (if strip s = [] then None else fst (vad_from_text_gitlab rows lx (strip s)))"
  by (simp add: infer_text_def Let_def split: prod.splits option.splits)

lemma infer_text_no_match:
  assumes "matches (scan_loop (index_by_first (load_gitlab_vad rows lx)) (tokenize s)
              \<lparr>pos = 0, counts = [], matches = []\<rparr>) = []"
  shows "vad (fst (infer_text nlp rows lx s)) = None"
proof -
  from assms have "fst (vad_from_text_gitlab rows lx (strip s)) = None"
    by (intro vad_from_text_no_match) (simp add: tokenize_strip)
  then show ?thesis by (simp add: infer_text_vad)
qed

text \<open>
  Claim C6. When the scan of the tokens of a text records no match, in particular when no
  token is a key of the index, the phrase matcher returns \<open>None\<close> and the \<^verbatim>\<open>vad\<close> field
  of the inference result is \<open>None\<close>: the absent outcome, not a triple of any value.
\<close>

theorem no_match_is_absent:
  "(\<forall>rows lx s.
      matches (scan_loop (index_by_first (load_gitlab_vad rows lx)) (tokenize s)
                 \<lparr>pos = 0, counts = [], matches = []\<rparr>) = [] \<longrightarrow>
      fst (vad_from_text_gitlab rows lx s) = None
      \<and> (\<forall>nlp. vad (fst (infer_text nlp rows lx s)) = None))
   \<and> (\<forall>rows lx s.
      (\<forall>t \<in> set (tokenize s). map_of (index_by_first (load_gitlab_vad rows lx)) t = None) \<longrightarrow>
      fst (vad_from_text_gitlab rows lx s) = None
      \<and> (\<forall>nlp. vad (fst (infer_text nlp rows lx s)) = None))"
proof -
  have a: "fst (vad_from_text_gitlab rows lx s) = None \<and> (\<forall>nlp. vad (fst (infer_text nlp rows lx s)) = None)"
    if "matches (scan_loop (index_by_first (load_gitlab_vad rows lx)) (tokenize s)
                 \<lparr>pos = 0, counts = [], matches = []\<rparr>) = []" for rows lx s
    using that vad_from_text_no_match infer_text_no_match by blast
  have b: "matches (scan_loop (index_by_first (load_gitlab_vad rows lx)) (tokenize s)
                 \<lparr>pos = 0, counts = [], matches = []\<rparr>) = []"
    if "\<forall>t \<in> set (tokenize s). map_of (index_by_first (load_gitlab_vad rows lx)) t = None" for rows lx s
    using scan_loop_unknown[OF that] by simp
  from a b show ?thesis by blast
qed

theorem no_match_is_absent_witness:
  "list_all (\<lambda>t. map_of (index_by_first (load_gitlab_vad not_good_rows empty_lexicon)) t = None)
      (tokenize ''rainy day'')
   \<and> matches (scan_loop (index_by_first (load_gitlab_vad not_good_rows empty_lexicon)) (tokenize ''rainy day'')
                 \<lparr>pos = 0, counts = [], matches = []\<rparr>) = []
   \<and> fst (vad_from_text_gitlab not_good_rows empty_lexicon ''rainy day'') = None
   \<and> vad (fst (infer_text joy_classifier not_good_rows empty_lexicon ''rainy day'')) = None"
proof -
  have h1: "list_all (\<lambda>t. map_of (index_by_first (load_gitlab_vad not_good_rows empty_lexicon)) t = None)
      (tokenize ''rainy day'')"
    by code_simp
  then have h1': "\<forall>t \<in> set (tokenize ''rainy day'').
       map_of (index_by_first (load_gitlab_vad not_good_rows empty_lexicon)) t = None"
    by (simp only: list_all_iff)
  have h2: "matches (scan_loop (index_by_first (load_gitlab_vad not_good_rows empty_lexicon)) (tokenize ''rainy day'')
                 \<lparr>pos = 0, counts = [], matches = []\<rparr>) = []"
    by code_simp
  from no_match_is_absent h1'
  have "fst (vad_from_text_gitlab not_good_rows empty_lexicon ''rainy day'') = None
   \<and> vad (fst (infer_text joy_classifier not_good_rows empty_lexicon ''rainy day'')) = None"
    by blast
  with h1 h2 show ?thesis by blast
qed

section \<open>Mood vectors\<close>

lemma py_round4_unit:
  assumes "0 \<le> x" and "x \<le> 1"
  shows "0 \<le> py_round4 x \<and> py_round4 x \<le> 1"
proof -
  define y where "y = x * 10000"
  define f where "f = \<lfloor>y\<rfloor>"
  have y: "0 \<le> y" "y \<le> 10000" using assms by (simp_all add: y_def)
  have f0: "0 \<le> f" using y by (simp add: f_def)
  have fy: "of_int f \<le> y" by (simp add: f_def)
  then have "(of_int f :: rat) \<le> of_int 10000" using y by simp
  then have f1: "f \<le> 10000" by (simp only: of_int_le_iff)
  have r: "py_round4 x = of_int f / 10000 \<or> (py_round4 x = of_int (f + 1) / 10000 \<and> 1 / 2 \<le> y - of_int f)"
    by (auto simp: py_round4_def Let_def y_def[symmetric] f_def[symmetric])
  show ?thesis
  proof (cases "f = 10000")
    case True
    with y have "y - of_int f \<le> 0" by simp
    with r True show ?thesis by auto
  next
    case False
    with f1 have "f + 1 \<le> 10000" by simp
    then have "(of_int (f + 1) :: rat) \<le> 10000" by (metis of_int_le_iff of_int_numeral)
    moreover have "(of_int f :: rat) \<le> 10000" using f1 by (metis of_int_le_iff of_int_numeral)
    moreover have "(0::rat) \<le> of_int f" "(0::rat) \<le> of_int (f + 1)" using f0 by simp_all
    ultimately show ?thesis using r by auto
  qed
qed

lemma blend_moods_explicit:
  "blend_moods a b wa =
     [(''valence'', py_round4 (dict_get_or a ''valence'' (1/2) * wa + dict_get_or b ''valence'' (1/2) * (1 - wa))),
      (''energy'', py_round4 (dict_get_or a ''energy'' (1/2) * wa + dict_get_or b ''energy'' (1/2) * (1 - wa))),
      (''focus'', py_round4 (dict_get_or a ''focus'' (1/2) * wa + dict_get_or b ''focus'' (1/2) * (1 - wa))),
      (''danceability'', py_round4 (dict_get_or a ''danceability'' (1/2) * wa + dict_get_or b ''danceability'' (1/2) * (1 - wa))),
      (''tempo_pref'', py_round4 (dict_get_or a ''tempo_pref'' (1/2) * wa + dict_get_or b ''tempo_pref'' (1/2) * (1 - wa)))]"
  by (simp add: blend_moods_def DEFAULT_MOOD_def Let_def)

lemma EMOTION_TO_MOOD_valid:
  "map_of EMOTION_TO_MOOD l = Some mp \<Longrightarrow> valid_mood mp"
  by (auto simp: EMOTION_TO_MOOD_def valid_mood_def split: if_splits)

lemma valid_mood_explicit:
  assumes "valid_mood m"
  shows "\<exists>v1 v2 v3 v4 v5.
        m = [(''valence'', v1), (''energy'', v2), (''focus'', v3), (''danceability'', v4), (''tempo_pref'', v5)]
        \<and> 0 \<le> v1 \<and> v1 \<le> 1 \<and> 0 \<le> v2 \<and> v2 \<le> 1 \<and> 0 \<le> v3 \<and> v3 \<le> 1
        \<and> 0 \<le> v4 \<and> v4 \<le> 1 \<and> 0 \<le> v5 \<and> v5 \<le> 1"
proof -
  from assms have k: "map fst m = [''valence'', ''energy'', ''focus'', ''danceability'', ''tempo_pref'']"
    and b: "list_all (\<lambda>kv. 0 \<le> snd kv \<and> snd kv \<le> 1) m"
    by (simp_all add: valid_mood_def)
  from k obtain p1 p2 p3 p4 p5 where m: "m = [p1, p2, p3, p4, p5]"
    by (auto simp: map_eq_Cons_conv)
  with k have "m = [(''valence'', snd p1), (''energy'', snd p2), (''focus'', snd p3),
                    (''danceability'', snd p4), (''tempo_pref'', snd p5)]"
    by (cases p1; cases p2; cases p3; cases p4; cases p5) simp
  moreover from b m have "0 \<le> snd p1 \<and> snd p1 \<le> 1 \<and> 0 \<le> snd p2 \<and> snd p2 \<le> 1 \<and> 0 \<le> snd p3 \<and> snd p3 \<le> 1
        \<and> 0 \<le> snd p4 \<and> snd p4 \<le> 1 \<and> 0 \<le> snd p5 \<and> snd p5 \<le> 1"
    by simp
  ultimately show ?thesis by blast
qed

lemma EMOTION_TO_MOOD_row:
  "map_of EMOTION_TO_MOOD l = Some mp \<Longrightarrow>
     \<exists>v1 v2 v3 v4 v5.
        mp = [(''valence'', v1), (''energy'', v2), (''focus'', v3), (''danceability'', v4), (''tempo_pref'', v5)]
        \<and> 0 \<le> v1 \<and> v1 \<le> 1 \<and> 0 \<le> v2 \<and> v2 \<le> 1 \<and> 0 \<le> v3 \<and> v3 \<le> 1
        \<and> 0 \<le> v4 \<and> v4 \<le> 1 \<and> 0 \<le> v5 \<and> v5 \<le> 1"
  by (rule valid_mood_explicit) (rule EMOTION_TO_MOOD_valid)

lemma EMOTION_TO_MOOD_keys:
  "map_of EMOTION_TO_MOOD l = Some mp \<Longrightarrow> map fst mp = map fst DEFAULT_MOOD"
  by (drule EMOTION_TO_MOOD_row) (auto simp: DEFAULT_MOOD_def)

lemma add_emotion_explicit:
  "add_emotion lp [(''valence'', a1), (''energy'', a2), (''focus'', a3), (''danceability'', a4), (''tempo_pref'', a5)] =
     [(''valence'', a1 + emotion_weight lp ''valence''),
      (''energy'', a2 + emotion_weight lp ''energy''),
      (''focus'', a3 + emotion_weight lp ''focus''),
      (''danceability'', a4 + emotion_weight lp ''danceability''),
      (''tempo_pref'', a5 + emotion_weight lp ''tempo_pref'')]"
proof (cases "map_of EMOTION_TO_MOOD (fst lp)")
  case None
  then show ?thesis by (simp add: add_emotion_def emotion_weight_def)
next
  case (Some mp)
  from EMOTION_TO_MOOD_row[OF Some] obtain v1 v2 v3 v4 v5 where
    "mp = [(''valence'', v1), (''energy'', v2), (''focus'', v3), (''danceability'', v4), (''tempo_pref'', v5)]"
    by blast
  with Some show ?thesis
    by (simp add: add_emotion_def emotion_weight_def dict_get_or_def)
qed

lemma fold_add_emotion:
  "fold add_emotion emo [(''valence'', a1), (''energy'', a2), (''focus'', a3), (''danceability'', a4), (''tempo_pref'', a5)] =
     [(''valence'', a1 + emotion_numerator emo ''valence''),
      (''energy'', a2 + emotion_numerator emo ''energy''),
      (''focus'', a3 + emotion_numerator emo ''focus''),
      (''danceability'', a4 + emotion_numerator emo ''danceability''),
      (''tempo_pref'', a5 + emotion_numerator emo ''tempo_pref'')]"
  by (induction emo arbitrary: a1 a2 a3 a4 a5)
     (simp_all add: emotion_numerator_def add_emotion_explicit add.assoc)

lemma mood_from_emotions_explicit:
  assumes "emo \<noteq> []"
  shows "mood_from_emotions emo =
     (let total = sum_list (map snd emo); totalsum = (if total = 0 then 1 else total) in
      [(''valence'', py_round4 (emotion_numerator emo ''valence'' / totalsum)),
       (''energy'', py_round4 (emotion_numerator emo ''energy'' / totalsum)),
       (''focus'', py_round4 (emotion_numerator emo ''focus'' / totalsum)),
       (''danceability'', py_round4 (emotion_numerator emo ''danceability'' / totalsum)),
       (''tempo_pref'', py_round4 (emotion_numerator emo ''tempo_pref'' / totalsum))])"
proof -
  have "fold add_emotion emo (map (\<lambda>k. (k, 0)) (map fst DEFAULT_MOOD)) =
     [(''valence'', emotion_numerator emo ''valence''),
      (''energy'', emotion_numerator emo ''energy''),
      (''focus'', emotion_numerator emo ''focus''),
      (''danceability'', emotion_numerator emo ''danceability''),
      (''tempo_pref'', emotion_numerator emo ''tempo_pref'')]"
    using fold_add_emotion[of emo 0 0 0 0 0] by (simp add: DEFAULT_MOOD_def)
  with assms show ?thesis
    by (simp add: mood_from_emotions_def Let_def DEFAULT_MOOD_def)
qed

lemma emotion_weight_bounds:
  assumes "0 \<le> snd lp"
  shows "0 \<le> emotion_weight lp dm \<and> emotion_weight lp dm \<le> snd lp"
proof (cases "map_of EMOTION_TO_MOOD (fst lp)")
  case None
  with assms show ?thesis by (simp add: emotion_weight_def)
next
  case (Some mp)
  from EMOTION_TO_MOOD_row[OF Some] have "0 \<le> dict_get_or mp dm 0 \<and> dict_get_or mp dm 0 \<le> 1"
    by (auto simp: dict_get_or_def)
  with assms Some show ?thesis
    by (simp add: emotion_weight_def mult_left_le)
qed

lemma emotion_numerator_bounds:
  "\<forall>lp\<in>set emo. 0 \<le> snd lp \<Longrightarrow>
     0 \<le> emotion_numerator emo dm \<and> emotion_numerator emo dm \<le> sum_list (map snd emo)
     \<and> 0 \<le> sum_list (map snd emo)"
proof (induction emo)
  case Nil
  show ?case by (simp add: emotion_numerator_def)
next
  case (Cons lp emo)
  then have "0 \<le> snd lp" by simp
  from emotion_weight_bounds[OF this, of dm] Cons show ?case
    by (simp add: emotion_numerator_def)
qed

lemma emotion_ratio_unit:
  assumes "\<forall>lp\<in>set emo. 0 \<le> snd lp"
  shows "0 \<le> emotion_numerator emo dm / (if sum_list (map snd emo) = 0 then 1 else sum_list (map snd emo))
         \<and> emotion_numerator emo dm / (if sum_list (map snd emo) = 0 then 1 else sum_list (map snd emo)) \<le> 1"
proof -
  note B = emotion_numerator_bounds[OF assms, of dm]
  show ?thesis
  proof (cases "sum_list (map snd emo) = 0")
    case True
    with B have "emotion_numerator emo dm = 0" by simp
    with True show ?thesis by simp
  next
    case False
    with B have "0 < sum_list (map snd emo)" by simp
    with B False show ?thesis by (simp add: divide_le_eq)
  qed
qed

lemma valid_mood_from_emotions:
  assumes "\<forall>lp\<in>set emo. 0 \<le> snd lp \<and> snd lp \<le> 1"
  shows "valid_mood (mood_from_emotions emo)"
proof (cases "emo = []")
  case True
  then show ?thesis by (simp add: mood_from_emotions_def valid_mood_def DEFAULT_MOOD_def)
next
  case False
  from assms have nn: "\<forall>lp\<in>set emo. 0 \<le> snd lp" by simp
  show ?thesis
    unfolding mood_from_emotions_explicit[OF False] valid_mood_def Let_def
    using py_round4_unit emotion_ratio_unit[OF nn] by simp
qed

lemma valid_music_mood_from_vad:
  assumes "0 \<le> v" "v \<le> 1" "0 \<le> a" "a \<le> 1" "0 \<le> d" "d \<le> 1"
  shows "valid_mood (music_mood_from_vad v a d)"
  unfolding music_mood_from_vad_def valid_mood_def Let_def
  using assms by (simp add: py_round4_unit)

lemma valid_mood_get:
  "valid_mood m \<Longrightarrow> 0 \<le> dict_get_or m k (1/2) \<and> dict_get_or m k (1/2) \<le> 1"
proof -
  assume "valid_mood m"
  then have "\<forall>kv\<in>set m. 0 \<le> snd kv \<and> snd kv \<le> 1" by (simp add: valid_mood_def list_all_iff)
  then show ?thesis
    by (auto simp: dict_get_or_def split: option.splits dest!: map_of_SomeD)
qed

lemma convex_unit:
  fixes x y w :: rat
  assumes "0 \<le> x" "x \<le> 1" "0 \<le> y" "y \<le> 1" "0 \<le> w" "w \<le> 1"
  shows "0 \<le> x * w + y * (1 - w) \<and> x * w + y * (1 - w) \<le> 1"
proof -
  have "x * w \<le> 1 * w" using assms by (intro mult_right_mono) simp_all
  moreover have "y * (1 - w) \<le> 1 * (1 - w)" using assms by (intro mult_right_mono) simp_all
  moreover have "0 \<le> x * w" "0 \<le> y * (1 - w)" using assms by simp_all
  ultimately show ?thesis by simp
qed

lemma valid_blend_moods:
  assumes "valid_mood a" "valid_mood b" "0 \<le> wa" "wa \<le> 1"
  shows "valid_mood (blend_moods a b wa)"
proof -
  have "0 \<le> py_round4 (dict_get_or a k (1/2) * wa + dict_get_or b k (1/2) * (1 - wa))
        \<and> py_round4 (dict_get_or a k (1/2) * wa + dict_get_or b k (1/2) * (1 - wa)) \<le> 1" for k
    using valid_mood_get[OF assms(1), of k] valid_mood_get[OF assms(2), of k] assms(3,4)
    by (intro py_round4_unit) (simp_all add: convex_unit)
  then show ?thesis
    unfolding blend_moods_explicit valid_mood_def by simp
qed

section \<open>Aggregation, source label and projections\<close>

text \<open>
  Claim C1 (weighted aggregation). The claim asks for the match-count-weighted mean over the
  distinct matched phrases. The aggregation loop runs over \<^verbatim>\<open>matches\<close>, which holds one
  entry per occurrence, and multiplies each entry by the count of its phrase, so a phrase
  matched \<open>c\<close> times weighs \<open>c * c\<close>. With ``calm'' (VAD 0.2) matched twice and ``glad''
  (VAD 0.8) matched once the code returns \<open>(0.2*2 + 0.2*2 + 0.8*1) / (2+2+1) = 0.32\<close> in every
  component, not the \<open>0.4\<close> of the claim.
\<close>

theorem count_weighting_is_squared:
  "matches (scan_loop (index_by_first (load_gitlab_vad calm_glad_rows empty_lexicon))
              (tokenize ''calm calm glad'') \<lparr>pos = 0, counts = [], matches = []\<rparr>)
     = [(''calm'', (1/5, 1/5, 1/5)), (''calm'', (1/5, 1/5, 1/5)), (''glad'', (4/5, 4/5, 4/5))]
   \<and> counts (scan_loop (index_by_first (load_gitlab_vad calm_glad_rows empty_lexicon))
              (tokenize ''calm calm glad'') \<lparr>pos = 0, counts = [], matches = []\<rparr>)
     = [(''calm'', 2), (''glad'', 1)]
   \<and> fst (vad_from_text_gitlab calm_glad_rows empty_lexicon ''calm calm glad'') = Some (8/25, 8/25, 8/25)
   \<and> fst (vad_from_text_gitlab calm_glad_rows empty_lexicon ''calm calm glad'') \<noteq> Some (2/5, 2/5, 2/5)"
  by code_simp

text \<open>
  Claim C2, as stated, fails: with a lexicon match and no classifier the route labels the
  result \<^verbatim>\<open>VAD-gitlab\<close>, which is none of ``default'', ``lexicon'', ``classifier'',
  ``blend''.
\<close>

theorem source_label_counterexample:
  "source (fst (infer_text None not_good_rows empty_lexicon ''good day''))
     \<notin> {''default'', ''lexicon'', ''classifier'', ''blend''}"
proof -
  have "source (fst (infer_text None not_good_rows empty_lexicon ''good day'')) = ''VAD-gitlab''"
    by code_simp
  then show ?thesis by simp
qed

text \<open>
  Claim C2, amended. For every input the source label is one of \<^verbatim>\<open>default\<close>,
  \<^verbatim>\<open>VAD-gitlab\<close>, \<^verbatim>\<open>emotions\<close>, \<^verbatim>\<open>blend(emotions,VAD-gitlab)\<close>: the blend label when
  both the lexical-path vector (a VAD triple was found) and the classifier-path vector (the
  emotion distribution is non-empty) are present, \<^verbatim>\<open>VAD-gitlab\<close> when only the lexical
  one is, \<^verbatim>\<open>emotions\<close> when only the classifier one is, \<^verbatim>\<open>default\<close> when neither is.
\<close>

theorem source_label_policy:
  "source (fst (infer_text nlp rows lx s))
     \<in> {''default'', ''VAD-gitlab'', ''emotions'', ''blend(emotions,VAD-gitlab)''}
   \<and> (vad (fst (infer_text nlp rows lx s)) \<noteq> None \<and> emotions (fst (infer_text nlp rows lx s)) \<noteq> []
        \<longrightarrow> source (fst (infer_text nlp rows lx s)) = ''blend(emotions,VAD-gitlab)'')
   \<and> (vad (fst (infer_text nlp rows lx s)) \<noteq> None \<and> emotions (fst (infer_text nlp rows lx s)) = []
        \<longrightarrow> source (fst (infer_text nlp rows lx s)) = ''VAD-gitlab'')
   \<and> (vad (fst (infer_text nlp rows lx s)) = None \<and> emotions (fst (infer_text nlp rows lx s)) \<noteq> []
        \<longrightarrow> source (fst (infer_text nlp rows lx s)) = ''emotions'')
   \<and> (vad (fst (infer_text nlp rows lx s)) = None \<and> emotions (fst (infer_text nlp rows lx s)) = []
        \<longrightarrow> source (fst (infer_text nlp rows lx s)) = ''default'')"
  by (auto simp: infer_text_def Let_def split: prod.splits option.splits)

theorem source_label_policy_witness:
  "(vad (fst (infer_text joy_classifier not_good_rows empty_lexicon ''good day'')) \<noteq> None
    \<and> emotions (fst (infer_text joy_classifier not_good_rows empty_lexicon ''good day'')) \<noteq> []
    \<and> source (fst (infer_text joy_classifier not_good_rows empty_lexicon ''good day'')) = ''blend(emotions,VAD-gitlab)'')
   \<and> (vad (fst (infer_text None not_good_rows empty_lexicon ''good day'')) \<noteq> None
    \<and> emotions (fst (infer_text None not_good_rows empty_lexicon ''good day'')) = []
    \<and> source (fst (infer_text None not_good_rows empty_lexicon ''good day'')) = ''VAD-gitlab'')
   \<and> (vad (fst (infer_text joy_classifier not_good_rows empty_lexicon ''rainy day'')) = None
    \<and> emotions (fst (infer_text joy_classifier not_good_rows empty_lexicon ''rainy day'')) \<noteq> []
    \<and> source (fst (infer_text joy_classifier not_good_rows empty_lexicon ''rainy day'')) = ''emotions'')
   \<and> (vad (fst (infer_text None not_good_rows empty_lexicon ''rainy day'')) = None
    \<and> emotions (fst (infer_text None not_good_rows empty_lexicon ''rainy day'')) = []
    \<and> source (fst (infer_text None not_good_rows empty_lexicon ''rainy day'')) = ''default'')"
proof -
  have a: "vad (fst (infer_text joy_classifier not_good_rows empty_lexicon ''good day'')) \<noteq> None
    \<and> emotions (fst (infer_text joy_classifier not_good_rows empty_lexicon ''good day'')) \<noteq> []"
    by code_simp
  have b: "vad (fst (infer_text None not_good_rows empty_lexicon ''good day'')) \<noteq> None
    \<and> emotions (fst (infer_text None not_good_rows empty_lexicon ''good day'')) = []"
    by code_simp
  have c: "vad (fst (infer_text joy_classifier not_good_rows empty_lexicon ''rainy day'')) = None
    \<and> emotions (fst (infer_text joy_classifier not_good_rows empty_lexicon ''rainy day'')) \<noteq> []"
    by code_simp
  have d: "vad (fst (infer_text None not_good_rows empty_lexicon ''rainy day'')) = None
    \<and> emotions (fst (infer_text None not_good_rows empty_lexicon ''rainy day'')) = []"
    by code_simp
  from a source_label_policy[of joy_classifier not_good_rows empty_lexicon "''good day''"]
  have a': "source (fst (infer_text joy_classifier not_good_rows empty_lexicon ''good day'')) = ''blend(emotions,VAD-gitlab)''"
    by blast
  from b source_label_policy[of None not_good_rows empty_lexicon "''good day''"]
  have b': "source (fst (infer_text None not_good_rows empty_lexicon ''good day'')) = ''VAD-gitlab''"
    by blast
  from c source_label_policy[of joy_classifier not_good_rows empty_lexicon "''rainy day''"]
  have c': "source (fst (infer_text joy_classifier not_good_rows empty_lexicon ''rainy day'')) = ''emotions''"
    by blast
  from d source_label_policy[of None not_good_rows empty_lexicon "''rainy day''"]
  have d': "source (fst (infer_text None not_good_rows empty_lexicon ''rainy day'')) = ''default''"
    by blast
  from a b c d a' b' c' d' show ?thesis by blast
qed

text \<open>
  Claim C3, as stated, fails: the distribution \<^verbatim>\<open>{"joy": 0.0}\<close> sums to zero and is not
  projected to the default mood.
\<close>

theorem zero_sum_counterexample:
  "sum_list (map snd [(''joy'', 0 :: rat)]) = 0
   \<and> mood_from_emotions [(''joy'', 0)] \<noteq> DEFAULT_MOOD"
  by code_simp

lemma py_round4_zero: "py_round4 0 = 0"
  by (simp add: py_round4_def)

lemma emotion_numerator_zero:
  "\<forall>lp\<in>set emo. snd lp = 0 \<Longrightarrow> emotion_numerator emo dm = 0"
  by (induction emo) (auto simp: emotion_numerator_def emotion_weight_def split: option.splits)

text \<open>
  Claim C3, amended. The empty emotion distribution is projected to the all-0.5 default
  mood vector unchanged. For a non-empty distribution whose probabilities sum to zero the
  divisor is 1, so every dimension is the rounded weighted sum over the recognised labels;
  when every probability is 0 that is the all-0.0 vector.
\<close>

theorem empty_or_zero_sum_distribution:
  "mood_from_emotions [] = DEFAULT_MOOD
   \<and> (\<forall>emo. emo \<noteq> [] \<and> sum_list (map snd emo) = 0 \<longrightarrow>
         mood_from_emotions emo =
           map (\<lambda>k. (k, py_round4 (emotion_numerator emo k / 1))) (map fst DEFAULT_MOOD))
   \<and> (\<forall>emo. emo \<noteq> [] \<and> (\<forall>lp\<in>set emo. snd lp = 0) \<longrightarrow>
         mood_from_emotions emo = map (\<lambda>k. (k, 0)) (map fst DEFAULT_MOOD))"
proof -
  have a: "mood_from_emotions [] = DEFAULT_MOOD" by (simp add: mood_from_emotions_def)
  have b: "mood_from_emotions emo =
           map (\<lambda>k. (k, py_round4 (emotion_numerator emo k / 1))) (map fst DEFAULT_MOOD)"
    if "emo \<noteq> []" "sum_list (map snd emo) = 0" for emo
    using that by (simp add: mood_from_emotions_explicit DEFAULT_MOOD_def)
  have c: "mood_from_emotions emo = map (\<lambda>k. (k, 0)) (map fst DEFAULT_MOOD)"
    if "emo \<noteq> []" "\<forall>lp\<in>set emo. snd lp = 0" for emo
    using that by (simp add: mood_from_emotions_explicit DEFAULT_MOOD_def Let_def
        emotion_numerator_zero py_round4_zero)
  from a b c show ?thesis by blast
qed

theorem empty_or_zero_sum_distribution_witness:
  "[(''joy'', 0 :: rat)] \<noteq> [] \<and> sum_list (map snd [(''joy'', 0 :: rat)]) = 0
   \<and> list_all (\<lambda>lp. snd lp = 0) [(''joy'', 0 :: rat)]
   \<and> mood_from_emotions [(''joy'', 0)] = map (\<lambda>k. (k, 0)) (map fst DEFAULT_MOOD)"
proof -
  have h1: "[(''joy'', 0 :: rat)] \<noteq> []" by simp
  have h2: "\<forall>lp\<in>set [(''joy'', 0 :: rat)]. snd lp = 0" by simp
  have h3: "sum_list (map snd [(''joy'', 0 :: rat)]) = 0" by simp
  from empty_or_zero_sum_distribution h1 h2
  have "mood_from_emotions [(''joy'', 0)] = map (\<lambda>k. (k, 0)) (map fst DEFAULT_MOOD)"
    by blast
  with h1 h3 show ?thesis by simp
qed


text \<open>
  Claim C4. With weight 0.4 the blend is, per dimension,
  \<^verbatim>\<open>round(classifier_val * 0.4 + lexical_val * 0.6, 4)\<close>; whenever the route has both a VAD
  triple and a non-empty emotion distribution its mood is that blend of the classifier-path
  and the lexical-path vector; and classifier all-0 with lexical all-1 blends to 0.6 in
  every dimension.
\<close>

theorem blend_is_40_60:
  "(\<forall>c l. blend_moods c l (4/10) =
       map (\<lambda>k. (k, py_round4 (dict_get_or c k (1/2) * (4/10) + dict_get_or l k (1/2) * (6/10))))
           (map fst DEFAULT_MOOD))
   \<and> (\<forall>nlp rows lx s v a d.
         vad (fst (infer_text nlp rows lx s)) = Some (v, a, d)
         \<and> emotions (fst (infer_text nlp rows lx s)) \<noteq> [] \<longrightarrow>
         mood (fst (infer_text nlp rows lx s)) =
           blend_moods (mood_from_emotions (emotions (fst (infer_text nlp rows lx s))))
                       (music_mood_from_vad v a d) (4/10))
   \<and> blend_moods (map (\<lambda>k. (k, 0)) (map fst DEFAULT_MOOD)) (map (\<lambda>k. (k, 1)) (map fst DEFAULT_MOOD)) (4/10)
       = map (\<lambda>k. (k, 6/10)) (map fst DEFAULT_MOOD)"
proof -
  have a: "blend_moods c l (4/10) =
       map (\<lambda>k. (k, py_round4 (dict_get_or c k (1/2) * (4/10) + dict_get_or l k (1/2) * (6/10))))
           (map fst DEFAULT_MOOD)" for c l
    by (simp add: blend_moods_explicit DEFAULT_MOOD_def)
  have b: "mood (fst (infer_text nlp rows lx s)) =
           blend_moods (mood_from_emotions (emotions (fst (infer_text nlp rows lx s))))
                       (music_mood_from_vad v a d) (4/10)"
    if "vad (fst (infer_text nlp rows lx s)) = Some (v, a, d)"
      "emotions (fst (infer_text nlp rows lx s)) \<noteq> []" for nlp rows lx s v a d
    using that by (auto simp: infer_text_def Let_def split: prod.splits option.splits if_splits)
  have c: "blend_moods (map (\<lambda>k. (k, 0)) (map fst DEFAULT_MOOD)) (map (\<lambda>k. (k, 1)) (map fst DEFAULT_MOOD)) (4/10)
       = map (\<lambda>k. (k, 6/10)) (map fst DEFAULT_MOOD)"
    by code_simp
  from a b c show ?thesis by blast
qed

theorem blend_is_40_60_witness:
  "vad (fst (infer_text joy_classifier not_good_rows empty_lexicon ''good day'')) = Some (3/4, 1/2, 1/2)
   \<and> emotions (fst (infer_text joy_classifier not_good_rows empty_lexicon ''good day'')) \<noteq> []
   \<and> mood (fst (infer_text joy_classifier not_good_rows empty_lexicon ''good day'')) =
       blend_moods
         (mood_from_emotions (emotions (fst (infer_text joy_classifier not_good_rows empty_lexicon ''good day''))))
         (music_mood_from_vad (3/4) (1/2) (1/2)) (4/10)"
proof -
  have h: "vad (fst (infer_text joy_classifier not_good_rows empty_lexicon ''good day'')) = Some (3/4, 1/2, 1/2)
   \<and> emotions (fst (infer_text joy_classifier not_good_rows empty_lexicon ''good day'')) \<noteq> []"
    by code_simp
  with blend_is_40_60 show ?thesis by blast
qed

text \<open>
  Claim C8. The distribution \<^verbatim>\<open>{"joy": 0.5, "unknown_label": 0.5}\<close> is projected to exactly
  half, in every dimension, of what \<^verbatim>\<open>{"joy": 1.0}\<close> is projected to. In general every
  dimension of the projection is the rounded quotient of the numerator over the recognised
  labels by the sum of all probabilities, and an unrecognised label contributes zero to
  every numerator.
\<close>

theorem unknown_label_dilutes:
  "map_of EMOTION_TO_MOOD ''unknown_label'' = None
   \<and> mood_from_emotions [(''joy'', 1)] =
       [(''valence'', 9/10), (''energy'', 7/10), (''focus'', 4/10), (''danceability'', 7/10), (''tempo_pref'', 75/100)]
   \<and> mood_from_emotions [(''joy'', 1/2), (''unknown_label'', 1/2)] =
       [(''valence'', 9/10 / 2), (''energy'', 7/10 / 2), (''focus'', 4/10 / 2), (''danceability'', 7/10 / 2), (''tempo_pref'', 75/100 / 2)]
   \<and> (\<forall>emo. emo \<noteq> [] \<longrightarrow>
         mood_from_emotions emo =
           map (\<lambda>k. (k, py_round4 (emotion_numerator emo k /
                        (if sum_list (map snd emo) = 0 then 1 else sum_list (map snd emo)))))
               (map fst DEFAULT_MOOD))
   \<and> (\<forall>l p k. map_of EMOTION_TO_MOOD l = None \<longrightarrow> emotion_weight (l, p) k = 0)"
proof -
  have a: "map_of EMOTION_TO_MOOD ''unknown_label'' = None" by code_simp
  have b: "mood_from_emotions [(''joy'', 1)] =
       [(''valence'', 9/10), (''energy'', 7/10), (''focus'', 4/10), (''danceability'', 7/10), (''tempo_pref'', 75/100)]"
    by code_simp
  have c: "mood_from_emotions [(''joy'', 1/2), (''unknown_label'', 1/2)] =
       [(''valence'', 9/10 / 2), (''energy'', 7/10 / 2), (''focus'', 4/10 / 2), (''danceability'', 7/10 / 2), (''tempo_pref'', 75/100 / 2)]"
    by code_simp
  have d: "mood_from_emotions emo =
           map (\<lambda>k. (k, py_round4 (emotion_numerator emo k /
                        (if sum_list (map snd emo) = 0 then 1 else sum_list (map snd emo)))))
               (map fst DEFAULT_MOOD)" if "emo \<noteq> []" for emo
    using that by (simp add: mood_from_emotions_explicit DEFAULT_MOOD_def Let_def)
  have e: "emotion_weight (l, p) k = 0" if "map_of EMOTION_TO_MOOD l = None" for l p k
    using that by (simp add: emotion_weight_def)
  from a b c d e show ?thesis by blast
qed

theorem unknown_label_dilutes_witness:
  "[(''joy'', 1/2), (''unknown_label'', 1/2 :: rat)] \<noteq> []
   \<and> map_of EMOTION_TO_MOOD ''unknown_label'' = None
   \<and> emotion_weight (''unknown_label'', 1/2) ''valence'' = 0
   \<and> mood_from_emotions [(''joy'', 1/2), (''unknown_label'', 1/2)] =
       map (\<lambda>k. (k, py_round4 (emotion_numerator [(''joy'', 1/2), (''unknown_label'', 1/2)] k /
              (if sum_list (map snd [(''joy'', 1/2), (''unknown_label'', 1/2 :: rat)]) = 0 then 1
               else sum_list (map snd [(''joy'', 1/2), (''unknown_label'', 1/2 :: rat)])))))
           (map fst DEFAULT_MOOD)"
proof -
  note T = unknown_label_dilutes
  have h: "[(''joy'', 1/2), (''unknown_label'', 1/2 :: rat)] \<noteq> []" by simp
  from T have u: "map_of EMOTION_TO_MOOD ''unknown_label'' = None" by blast
  with T have w: "emotion_weight (''unknown_label'', 1/2) ''valence'' = 0" by blast
  from T h have "mood_from_emotions [(''joy'', 1/2), (''unknown_label'', 1/2)] =
       map (\<lambda>k. (k, py_round4 (emotion_numerator [(''joy'', 1/2), (''unknown_label'', 1/2)] k /
              (if sum_list (map snd [(''joy'', 1/2), (''unknown_label'', 1/2 :: rat)]) = 0 then 1
               else sum_list (map snd [(''joy'', 1/2), (''unknown_label'', 1/2 :: rat)])))))
           (map fst DEFAULT_MOOD)" by blast
  with h u w show ?thesis by blast
qed

section \<open>The scan\<close>

lemma not_good_index_eq:
  "not_good_index =
     [(''not'', [(2, [([''not'', ''good''], (1/4, 1/2, 1/2))])]),
      (''good'', [(1, [([''good''], (3/4, 1/2, 1/2))])])]"
  by code_simp

text \<open>
  Claim C5. At a scan position whose token is a key of the index, if some phrase of length
  between 1 and \<open>min 4 (tokens remaining)\<close> starting there is indexed, then the iteration
  records exactly one match, the longest such phrase, and advances the position by its
  length; if none is indexed, the iteration records nothing and advances by one. With the entries ``not good'' and ``good'', scanning ``this is not good today''
  records the 2-gram ``not good'' alone, at tokens 2 and 3.
\<close>

theorem longest_phrase_wins:
  "(\<forall>ix toks s L0.
      pos s < length toks \<and> map_of ix (toks ! pos s) \<noteq> None
      \<and> 1 \<le> L0 \<and> L0 \<le> min 4 (length toks - pos s) \<and> phrase_at ix toks (pos s) L0 \<noteq> None \<longrightarrow>
      (\<exists>L e. L0 \<le> L \<and> L \<le> min 4 (length toks - pos s)
         \<and> phrase_at ix toks (pos s) L = Some e
         \<and> (\<forall>L'. L < L' \<and> L' \<le> min 4 (length toks - pos s) \<longrightarrow> phrase_at ix toks (pos s) L' = None)
         \<and> pos (scan_step ix toks s) = pos s + L
         \<and> matches (scan_step ix toks s) = matches s @ [(join_space (take L (drop (pos s) toks)), e)]))
   \<and> (\<forall>ix toks s.
      pos s < length toks
      \<and> (\<forall>L. 1 \<le> L \<and> L \<le> min 4 (length toks - pos s) \<longrightarrow> phrase_at ix toks (pos s) L = None) \<longrightarrow>
      scan_step ix toks s = s\<lparr>pos := pos s + 1\<rparr>)
   \<and> map fst (term_dict (load_gitlab_vad not_good_rows empty_lexicon)) = [''not good'', ''good'']
   \<and> map fst (matches (scan_loop not_good_index (tokenize ''this is not good today'')
                          \<lparr>pos = 0, counts = [], matches = []\<rparr>)) = [''not good'']
   \<and> scan_spans not_good_index (tokenize ''this is not good today'') 0 = [(2, 2)]"
proof -
  have a: "\<exists>L e. L0 \<le> L \<and> L \<le> min 4 (length toks - pos s)
         \<and> phrase_at ix toks (pos s) L = Some e
         \<and> (\<forall>L'. L < L' \<and> L' \<le> min 4 (length toks - pos s) \<longrightarrow> phrase_at ix toks (pos s) L' = None)
         \<and> pos (scan_step ix toks s) = pos s + L
         \<and> matches (scan_step ix toks s) = matches s @ [(join_space (take L (drop (pos s) toks)), e)]"
    if "pos s < length toks \<and> map_of ix (toks ! pos s) \<noteq> None
      \<and> 1 \<le> L0 \<and> L0 \<le> min 4 (length toks - pos s) \<and> phrase_at ix toks (pos s) L0 \<noteq> None"
    for ix toks s L0
    using that by (intro scan_step_longest) simp_all
  have n: "scan_step ix toks s = s\<lparr>pos := pos s + 1\<rparr>"
    if "pos s < length toks
      \<and> (\<forall>L. 1 \<le> L \<and> L \<le> min 4 (length toks - pos s) \<longrightarrow> phrase_at ix toks (pos s) L = None)"
    for ix toks s
    using that by (intro scan_step_none) simp_all
  have b: "map fst (term_dict (load_gitlab_vad not_good_rows empty_lexicon)) = [''not good'', ''good'']"
    by code_simp
  have c: "map fst (matches (scan_loop not_good_index (tokenize ''this is not good today'')
                          \<lparr>pos = 0, counts = [], matches = []\<rparr>)) = [''not good'']"
    by code_simp
  have d: "scan_spans not_good_index (tokenize ''this is not good today'') 0 = [(2, 2)]"
    by code_simp
  from a n b c d show ?thesis by blast
qed

theorem longest_phrase_wins_witness:
  "pos \<lparr>pos = 2, counts = [], matches = []\<rparr> < length [''this'', ''is'', ''not'', ''good'', ''today'']
   \<and> map_of not_good_index ([''this'', ''is'', ''not'', ''good'', ''today''] ! 2) \<noteq> None
   \<and> phrase_at not_good_index [''this'', ''is'', ''not'', ''good'', ''today''] 2 2 \<noteq> None
   \<and> (\<exists>L e. 2 \<le> L \<and> L \<le> min 4 (length [''this'', ''is'', ''not'', ''good'', ''today''] - 2)
         \<and> phrase_at not_good_index [''this'', ''is'', ''not'', ''good'', ''today''] 2 L = Some e
         \<and> pos (scan_step not_good_index [''this'', ''is'', ''not'', ''good'', ''today'']
                  \<lparr>pos = 2, counts = [], matches = []\<rparr>) = 2 + L
         \<and> matches (scan_step not_good_index [''this'', ''is'', ''not'', ''good'', ''today'']
                  \<lparr>pos = 2, counts = [], matches = []\<rparr>)
             = [(join_space (take L (drop 2 [''this'', ''is'', ''not'', ''good'', ''today''])), e)])"
proof -
  let ?toks = "[''this'', ''is'', ''not'', ''good'', ''today'']"
  let ?s = "\<lparr>pos = 2, counts = [], matches = []\<rparr> :: scan_state"
  have h1: "pos ?s < length ?toks" by simp
  have h2: "map_of not_good_index (?toks ! pos ?s) \<noteq> None" by code_simp
  have h3: "(1::nat) \<le> 2 \<and> 2 \<le> min 4 (length ?toks - pos ?s)" by simp
  have h4: "phrase_at not_good_index ?toks (pos ?s) 2 \<noteq> None" by code_simp
  from longest_phrase_wins h1 h2 h3 h4
  have "\<exists>L e. 2 \<le> L \<and> L \<le> min 4 (length ?toks - pos ?s)
         \<and> phrase_at not_good_index ?toks (pos ?s) L = Some e
         \<and> (\<forall>L'. L < L' \<and> L' \<le> min 4 (length ?toks - pos ?s) \<longrightarrow> phrase_at not_good_index ?toks (pos ?s) L' = None)
         \<and> pos (scan_step not_good_index ?toks ?s) = pos ?s + L
         \<and> matches (scan_step not_good_index ?toks ?s) = matches ?s @ [(join_space (take L (drop (pos ?s) ?toks)), e)]"
    by blast
  then obtain L e where "2 \<le> L" "L \<le> min 4 (length ?toks - pos ?s)"
    "phrase_at not_good_index ?toks (pos ?s) L = Some e"
    "pos (scan_step not_good_index ?toks ?s) = pos ?s + L"
    "matches (scan_step not_good_index ?toks ?s) = matches ?s @ [(join_space (take L (drop (pos ?s) ?toks)), e)]"
    by blast
  then have "2 \<le> L \<and> L \<le> min 4 (length ?toks - 2)
         \<and> phrase_at not_good_index ?toks 2 L = Some e
         \<and> pos (scan_step not_good_index ?toks ?s) = 2 + L
         \<and> matches (scan_step not_good_index ?toks ?s) = [(join_space (take L (drop 2 ?toks)), e)]"
    by simp
  then have "\<exists>L e. 2 \<le> L \<and> L \<le> min 4 (length ?toks - 2)
         \<and> phrase_at not_good_index ?toks 2 L = Some e
         \<and> pos (scan_step not_good_index ?toks ?s) = 2 + L
         \<and> matches (scan_step not_good_index ?toks ?s) = [(join_space (take L (drop 2 ?toks)), e)]"
    by blast
  with h1 h2 h4 show ?thesis by simp
qed

subsection \<open>Mood vectors of the route\<close>

lemma dict_set_all:
  "list_all (\<lambda>kv. P (snd kv)) d \<Longrightarrow> P v \<Longrightarrow> list_all (\<lambda>kv. P (snd kv)) (dict_set k v d)"
  by (induction d) auto

lemma dict_get_or_all:
  "list_all (\<lambda>kv. P (snd kv)) d \<Longrightarrow> P dflt \<Longrightarrow> P (dict_get_or d k dflt)"
  by (auto simp: dict_get_or_def list_all_iff split: option.splits dest!: map_of_SomeD)

lemma map_of_all:
  "list_all (\<lambda>kv. P (snd kv)) d \<Longrightarrow> map_of d k = Some v \<Longrightarrow> P v"
  by (auto simp: list_all_iff dest!: map_of_SomeD)

lemma norm01_unit: "0 \<le> norm01 x \<and> norm01 x \<le> 1"
  by (simp add: norm01_def)

lemma index_set_ok:
  assumes "index_ok ix" and "unit_vad e"
  shows "index_ok (index_set first L toks e ix)"
proof -
  let ?P2 = "\<lambda>d. list_all (\<lambda>pe. unit_vad (snd pe)) d"
  let ?P1 = "\<lambda>bl. list_all (\<lambda>ld. ?P2 (snd ld)) bl"
  from assms(1) have ix: "list_all (\<lambda>fb. ?P1 (snd fb)) ix" by (simp add: index_ok_def)
  have bl: "?P1 (dict_get_or ix first [])"
    using dict_get_or_all[of ?P1 ix "[]" first] ix by simp
  have d: "?P2 (dict_get_or (dict_get_or ix first []) L [])"
    using dict_get_or_all[of ?P2 "dict_get_or ix first []" "[]" L] bl by simp
  have d': "?P2 (dict_set toks e (dict_get_or (dict_get_or ix first []) L []))"
    using dict_set_all[of unit_vad _ e toks] d assms(2) by simp
  have bl': "?P1 (dict_set L (dict_set toks e (dict_get_or (dict_get_or ix first []) L [])) (dict_get_or ix first []))"
    using dict_set_all[of ?P2 "dict_get_or ix first []" _ L] bl d' by simp
  have "list_all (\<lambda>fb. ?P1 (snd fb))
          (dict_set first (dict_set L (dict_set toks e (dict_get_or (dict_get_or ix first []) L [])) (dict_get_or ix first [])) ix)"
    using dict_set_all[of ?P1 ix _ first] ix bl' by simp
  then show ?thesis by (simp add: index_set_def index_ok_def Let_def)
qed

lemma load_row_ok: "index_ok (snd acc) \<Longrightarrow> index_ok (snd (load_row row acc))"
  by (auto simp: load_row_def Let_def index_set_ok unit_vad_def norm01_unit split: option.splits)

lemma fold_load_row_ok: "index_ok (snd acc) \<Longrightarrow> index_ok (snd (fold load_row rows acc))"
  by (induction rows arbitrary: acc) (simp_all add: load_row_ok)

lemma load_gitlab_vad_ok:
  "index_ok (index_by_first lx) \<Longrightarrow> index_ok (index_by_first (load_gitlab_vad rows lx))"
  using fold_load_row_ok[of "([], [])" rows]
  by (simp add: load_gitlab_vad_def Let_def index_ok_def)

lemma phrase_at_ok: "index_ok ix \<Longrightarrow> phrase_at ix toks i L = Some e \<Longrightarrow> unit_vad e"
proof -
  assume ok: "index_ok ix" and p: "phrase_at ix toks i L = Some e"
  from p obtain bl d where 1: "map_of ix (toks ! i) = Some bl" and 2: "map_of bl L = Some d"
    and 3: "map_of d (take L (drop i toks)) = Some e"
    by (auto simp: phrase_at_def split: option.splits)
  from ok 1 have "list_all (\<lambda>ld. list_all (\<lambda>pe. unit_vad (snd pe)) (snd ld)) bl"
    unfolding index_ok_def by (rule map_of_all)
  with 2 have "list_all (\<lambda>pe. unit_vad (snd pe)) d" by (rule map_of_all[rotated])
  with 3 show "unit_vad e" by (rule map_of_all[rotated])
qed

lemma scan_step_matches_ok:
  assumes "index_ok ix" and "list_all (\<lambda>m. unit_vad (snd m)) (matches s)"
  shows "list_all (\<lambda>m. unit_vad (snd m)) (matches (scan_step ix toks s))"
proof (cases "try_lengths ix toks (pos s) (min max_ngram (length toks - pos s))")
  case None
  with assms show ?thesis by (simp add: scan_step_def)
next
  case (Some r)
  obtain L e where r: "r = (L, e)" by (cases r)
  from Some r have t: "try_lengths ix toks (pos s) (min max_ngram (length toks - pos s)) = Some (L, e)"
    by simp
  from try_lengths_Some[OF t] have "phrase_at ix toks (pos s) L = Some e" by simp
  from phrase_at_ok[OF assms(1) this] assms(2) t show ?thesis
    by (simp add: scan_step_def Let_def)
qed

lemma scan_loop_matches_ok:
  "index_ok ix \<Longrightarrow> list_all (\<lambda>m. unit_vad (snd m)) (matches s) \<Longrightarrow>
     list_all (\<lambda>m. unit_vad (snd m)) (matches (scan_loop ix toks s))"
proof (induction ix toks s rule: scan_loop.induct)
  case (1 ix toks s)
  show ?case
  proof (cases "pos s < length toks")
    case False
    with "1.prems" show ?thesis by (simp add: scan_loop.simps)
  next
    case True
    have "scan_loop ix toks s = scan_loop ix toks (scan_step ix toks s)"
      using True by (subst scan_loop.simps) simp
    with "1.IH"[OF True "1.prems"(1) scan_step_matches_ok[OF "1.prems"]] show ?thesis by simp
  qed
qed

lemma fold_weighted_bounds:
  assumes "list_all (\<lambda>m. unit_vad (snd m)) ms"
    and "0 \<le> sv \<and> sv \<le> of_nat sw" "0 \<le> sa \<and> sa \<le> of_nat sw" "0 \<le> sd \<and> sd \<le> of_nat sw"
  shows "case fold (\<lambda>(term_key, (v, a, d)) (sum_w, sum_v, sum_a, sum_d).
             (let c = counter_get cnts term_key
              in (sum_w + c, sum_v + v * of_nat c, sum_a + a * of_nat c, sum_d + d * of_nat c)))
          ms (sw, sv, sa, sd) of
          (sum_w, sum_v, sum_a, sum_d) \<Rightarrow>
            0 \<le> sum_v \<and> sum_v \<le> of_nat sum_w \<and> 0 \<le> sum_a \<and> sum_a \<le> of_nat sum_w
            \<and> 0 \<le> sum_d \<and> sum_d \<le> of_nat sum_w"
  using assms
proof (induction ms arbitrary: sw sv sa sd)
  case Nil
  then show ?case by simp
next
  case (Cons m ms)
  obtain k v a d where m: "m = (k, v, a, d)" by (cases m) auto
  from Cons.prems(1) m have u: "0 \<le> v" "v \<le> 1" "0 \<le> a" "a \<le> 1" "0 \<le> d" "d \<le> 1"
    and rest: "list_all (\<lambda>m. unit_vad (snd m)) ms"
    by (simp_all add: unit_vad_def)
  let ?c = "counter_get cnts k"
  have c0: "(0::rat) \<le> of_nat ?c" by simp
  have bv: "0 \<le> v * of_nat ?c \<and> v * of_nat ?c \<le> of_nat ?c"
    using u c0 by (simp add: mult_left_le_one_le)
  have ba: "0 \<le> a * of_nat ?c \<and> a * of_nat ?c \<le> of_nat ?c"
    using u c0 by (simp add: mult_left_le_one_le)
  have bd: "0 \<le> d * of_nat ?c \<and> d * of_nat ?c \<le> of_nat ?c"
    using u c0 by (simp add: mult_left_le_one_le)
  have "0 \<le> sv + v * of_nat ?c \<and> sv + v * of_nat ?c \<le> of_nat (sw + ?c)"
    "0 \<le> sa + a * of_nat ?c \<and> sa + a * of_nat ?c \<le> of_nat (sw + ?c)"
    "0 \<le> sd + d * of_nat ?c \<and> sd + d * of_nat ?c \<le> of_nat (sw + ?c)"
    using Cons.prems(2-4) bv ba bd by simp_all
  from Cons.IH[OF rest this] m show ?case by (simp add: Let_def)
qed

lemma vad_from_text_ok:
  assumes "index_ok (index_by_first lx)" and "fst (vad_from_text_gitlab rows lx s) = Some e"
  shows "unit_vad e"
proof -
  let ?ix = "index_by_first (load_gitlab_vad rows lx)"
  let ?st = "scan_loop ?ix (tokenize s) \<lparr>pos = 0, counts = [], matches = []\<rparr>"
  have ok: "index_ok ?ix" using assms(1) by (rule load_gitlab_vad_ok)
  have ms: "list_all (\<lambda>m. unit_vad (snd m)) (matches ?st)"
    by (rule scan_loop_matches_ok[OF ok]) simp
  obtain sum_w sum_v sum_a sum_d where w: "weighted_sums (counts ?st) (matches ?st) = (sum_w, sum_v, sum_a, sum_d)"
    by (cases "weighted_sums (counts ?st) (matches ?st)") auto
  from fold_weighted_bounds[OF ms, of 0 0 0 0 "counts ?st"] w
  have b: "0 \<le> sum_v \<and> sum_v \<le> of_nat sum_w \<and> 0 \<le> sum_a \<and> sum_a \<le> of_nat sum_w
            \<and> 0 \<le> sum_d \<and> sum_d \<le> of_nat sum_w"
    by (simp add: weighted_sums_def)
  from assms(2) w have nz: "sum_w \<noteq> 0"
    and e: "e = (py_round4 (sum_v / of_nat sum_w), py_round4 (sum_a / of_nat sum_w), py_round4 (sum_d / of_nat sum_w))"
    by (auto simp: vad_from_text_gitlab_def Let_def split: if_splits)
  from nz have "(0::rat) < of_nat sum_w" by simp
  with b have "0 \<le> sum_v / of_nat sum_w \<and> sum_v / of_nat sum_w \<le> 1"
    "0 \<le> sum_a / of_nat sum_w \<and> sum_a / of_nat sum_w \<le> 1"
    "0 \<le> sum_d / of_nat sum_w \<and> sum_d / of_nat sum_w \<le> 1"
    by (simp_all add: divide_le_eq)
  with e show ?thesis by (simp add: unit_vad_def py_round4_unit)
qed

lemma classify_unit:
  assumes "\<forall>f t scores. nlp = Some f \<and> f t = Some scores \<longrightarrow> list_all (\<lambda>ls. 0 \<le> snd ls \<and> snd ls \<le> 1) scores"
  shows "list_all (\<lambda>lp. 0 \<le> snd lp \<and> snd lp \<le> 1) (classify nlp t)"
proof -
  have f: "list_all (\<lambda>ls. 0 \<le> snd ls \<and> snd ls \<le> (1::rat)) scores \<Longrightarrow>
           list_all (\<lambda>lp. 0 \<le> snd lp \<and> snd lp \<le> 1) d \<Longrightarrow>
           list_all (\<lambda>lp. 0 \<le> snd lp \<and> snd lp \<le> 1)
             (fold (\<lambda>(label, score) d. dict_set (lower label) score d) scores d)" for scores d
  proof (induction scores arbitrary: d)
    case Nil
    then show ?case by simp
  next
    case (Cons x xs)
    obtain l p where x: "x = (l, p)" by (cases x)
    from Cons.prems x have "0 \<le> p \<and> p \<le> 1" "list_all (\<lambda>ls. 0 \<le> snd ls \<and> snd ls \<le> 1) xs" by simp_all
    with Cons.prems(2) dict_set_all[of "\<lambda>p. 0 \<le> p \<and> p \<le> 1" d p "lower l"]
    have "list_all (\<lambda>lp. 0 \<le> snd lp \<and> snd lp \<le> 1) (dict_set (lower l) p d)" by simp
    from Cons.IH[OF \<open>list_all (\<lambda>ls. 0 \<le> snd ls \<and> snd ls \<le> 1) xs\<close> this] x show ?case by simp
  qed
  show ?thesis
  proof (cases nlp)
    case None
    then show ?thesis by (simp add: classify_def)
  next
    case (Some g)
    show ?thesis
    proof (cases "g t")
      case None
      with Some show ?thesis by (simp add: classify_def)
    next
      case (Some scores)
      with \<open>nlp = Some g\<close> assms have "list_all (\<lambda>ls. 0 \<le> snd ls \<and> snd ls \<le> 1) scores" by blast
      from f[OF this, of "[]"] Some \<open>nlp = Some g\<close> show ?thesis by (simp add: classify_def)
    qed
  qed
qed

lemma infer_text_valid_mood:
  assumes "index_ok (index_by_first lx)"
    and "\<forall>f t scores. nlp = Some f \<and> f t = Some scores \<longrightarrow> list_all (\<lambda>ls. 0 \<le> snd ls \<and> snd ls \<le> 1) scores"
  shows "valid_mood (mood (fst (infer_text nlp rows lx s)))"
proof (cases "strip s = []")
  case True
  then show ?thesis by (simp add: infer_text_def valid_mood_def DEFAULT_MOOD_def)
next
  case False
  let ?emo = "classify nlp (strip s)"
  have "\<forall>lp\<in>set ?emo. 0 \<le> snd lp \<and> snd lp \<le> 1"
    using classify_unit[OF assms(2), of "strip s"] by (simp add: list_all_iff)
  then have ve: "valid_mood (mood_from_emotions ?emo)" by (rule valid_mood_from_emotions)
  have vdft: "valid_mood DEFAULT_MOOD" by (simp add: valid_mood_def DEFAULT_MOOD_def)
  obtain vd lx' where r: "vad_from_text_gitlab rows lx (strip s) = (vd, lx')"
    by (cases "vad_from_text_gitlab rows lx (strip s)")
  show ?thesis
  proof (cases vd)
    case None
    with False r ve vdft show ?thesis by (simp add: infer_text_def Let_def)
  next
    case (Some e)
    obtain v a d where e: "e = (v, a, d)" by (cases e)
    from r Some have "fst (vad_from_text_gitlab rows lx (strip s)) = Some e" by simp
    from vad_from_text_ok[OF assms(1) this] e
    have vm: "valid_mood (music_mood_from_vad v a d)"
      by (intro valid_music_mood_from_vad) (simp_all add: unit_vad_def)
    have vb: "valid_mood (blend_moods (mood_from_emotions ?emo) (music_mood_from_vad v a d) (4/10))"
      by (rule valid_blend_moods[OF ve vm]) simp_all
    from False r Some e vm vb show ?thesis by (simp add: infer_text_def Let_def)
  qed
qed

lemma infer_text_state:
  "snd (infer_text nlp rows lx s) = lx \<or> snd (infer_text nlp rows lx s) = load_gitlab_vad rows lx"
  by (auto simp: infer_text_def vad_from_text_gitlab_def Let_def split: prod.splits option.splits if_splits)

lemma infer_text_index_ok:
  "index_ok (index_by_first lx) \<Longrightarrow> index_ok (index_by_first (snd (infer_text nlp rows lx s)))"
  using infer_text_state[of nlp rows lx s] load_gitlab_vad_ok[of lx rows] by auto

text \<open>
  Claim C9. The VAD projection of any triple in [0,1], the emotion projection of any
  distribution with probabilities in [0,1], the blend of two valid mood vectors with a
  weight in [0,1] (the route uses 0.4) and the default vector all have exactly the five
  dimensions valence, energy, focus, danceability, tempo_pref, each with a value in [0,1].
  So has the mood that the route returns, for every text, every lexicon file and every
  classifier whose scores are in [0,1], from the empty lexicon and from every lexicon state
  a call leaves behind.
\<close>

theorem mood_vectors_valid:
  "(\<forall>v a d. 0 \<le> v \<and> v \<le> 1 \<and> 0 \<le> a \<and> a \<le> 1 \<and> 0 \<le> d \<and> d \<le> 1 \<longrightarrow>
       valid_mood (music_mood_from_vad v a d))
   \<and> (\<forall>emo. (\<forall>lp\<in>set emo. 0 \<le> snd lp \<and> snd lp \<le> 1) \<longrightarrow> valid_mood (mood_from_emotions emo))
   \<and> (\<forall>a b wa. valid_mood a \<and> valid_mood b \<and> 0 \<le> wa \<and> wa \<le> 1 \<longrightarrow> valid_mood (blend_moods a b wa))
   \<and> valid_mood DEFAULT_MOOD
   \<and> index_ok (index_by_first empty_lexicon)
   \<and> (\<forall>nlp rows lx s.
         index_ok (index_by_first lx)
         \<and> (\<forall>f t scores. nlp = Some f \<and> f t = Some scores \<longrightarrow>
               list_all (\<lambda>ls. 0 \<le> snd ls \<and> snd ls \<le> 1) scores) \<longrightarrow>
         valid_mood (mood (fst (infer_text nlp rows lx s)))
         \<and> index_ok (index_by_first (snd (infer_text nlp rows lx s))))"
proof -
  have d: "valid_mood DEFAULT_MOOD" by (simp add: valid_mood_def DEFAULT_MOOD_def)
  have e: "index_ok (index_by_first empty_lexicon)" by (simp add: index_ok_def empty_lexicon_def)
  have r: "valid_mood (mood (fst (infer_text nlp rows lx s)))
         \<and> index_ok (index_by_first (snd (infer_text nlp rows lx s)))"
    if "index_ok (index_by_first lx)
         \<and> (\<forall>f t scores. nlp = Some f \<and> f t = Some scores \<longrightarrow>
               list_all (\<lambda>ls. 0 \<le> snd ls \<and> snd ls \<le> 1) scores)" for nlp rows lx s
    using that infer_text_valid_mood[of lx nlp rows s] infer_text_index_ok[of lx nlp rows s] by blast
  have p: "\<forall>v a d. 0 \<le> v \<and> v \<le> 1 \<and> 0 \<le> a \<and> a \<le> 1 \<and> 0 \<le> d \<and> d \<le> 1 \<longrightarrow>
       valid_mood (music_mood_from_vad v a d)"
    using valid_music_mood_from_vad by blast
  have q: "\<forall>emo. (\<forall>lp\<in>set emo. 0 \<le> snd lp \<and> snd lp \<le> 1) \<longrightarrow> valid_mood (mood_from_emotions emo)"
    using valid_mood_from_emotions by blast
  have b: "\<forall>a b wa. valid_mood a \<and> valid_mood b \<and> 0 \<le> wa \<and> wa \<le> 1 \<longrightarrow> valid_mood (blend_moods a b wa)"
    using valid_blend_moods by blast
  from p q b d e r show ?thesis by blast
qed

theorem mood_vectors_valid_witness:
  "(0::rat) \<le> 3/4 \<and> (3/4::rat) \<le> 1 \<and> (0::rat) \<le> 1/2 \<and> (1/2::rat) \<le> 1
   \<and> list_all (\<lambda>lp. 0 \<le> snd lp \<and> snd lp \<le> 1) [(''joy'', 1/2), (''unknown_label'', 1/2 :: rat)]
   \<and> (0::rat) \<le> 4/10 \<and> (4/10::rat) \<le> 1
   \<and> valid_mood (music_mood_from_vad (3/4) (1/2) (1/2))
   \<and> valid_mood (mood_from_emotions [(''joy'', 1/2), (''unknown_label'', 1/2)])
   \<and> valid_mood (blend_moods (mood_from_emotions [(''joy'', 1/2), (''unknown_label'', 1/2)])
                              (music_mood_from_vad (3/4) (1/2) (1/2)) (4/10))
   \<and> index_ok (index_by_first empty_lexicon)
   \<and> valid_mood (mood (fst (infer_text joy_classifier not_good_rows empty_lexicon ''good day'')))"
proof -
  note T = mood_vectors_valid
  have h1: "(0::rat) \<le> 3/4 \<and> (3/4::rat) \<le> 1 \<and> (0::rat) \<le> 1/2 \<and> (1/2::rat) \<le> 1" by simp
  have h2: "\<forall>lp\<in>set [(''joy'', 1/2), (''unknown_label'', 1/2 :: rat)]. 0 \<le> snd lp \<and> snd lp \<le> 1" by simp
  have h3: "(0::rat) \<le> 4/10 \<and> (4/10::rat) \<le> 1" by simp
  from T h1 have v: "valid_mood (music_mood_from_vad (3/4) (1/2) (1/2))" by blast
  from T h2 have e: "valid_mood (mood_from_emotions [(''joy'', 1/2), (''unknown_label'', 1/2)])" by blast
  from T v e h3 have b: "valid_mood (blend_moods (mood_from_emotions [(''joy'', 1/2), (''unknown_label'', 1/2)])
                              (music_mood_from_vad (3/4) (1/2) (1/2)) (4/10))" by blast
  have h2': "list_all (\<lambda>lp. 0 \<le> snd lp \<and> snd lp \<le> 1) [(''joy'', 1/2), (''unknown_label'', 1/2 :: rat)]"
    by simp
  from T have i: "index_ok (index_by_first empty_lexicon)" by blast
  have c: "\<forall>f t scores. joy_classifier = Some f \<and> f t = Some scores \<longrightarrow>
             list_all (\<lambda>ls. 0 \<le> snd ls \<and> snd ls \<le> 1) scores"
    by (auto simp: joy_classifier_def)
  from T i c have r: "valid_mood (mood (fst (infer_text joy_classifier not_good_rows empty_lexicon ''good day'')))"
    by blast
  from h1 h2' h3 v e b i r show ?thesis by blast
qed

text \<open>
  Claim C10. Every iteration of the scan strictly increases the position, by the length
  \<open>L \<ge> 1\<close> of the recorded match or by 1 when nothing is recorded, and never past the
  number \<open>n\<close> of tokens; the loop is at most \<open>n\<close> iterations of the step, the position is
  below \<open>n\<close> before each of them and exactly \<open>n\<close> at the end; the recorded matches are the
  phrases of the spans of \<open>scan_spans\<close>, every span lies inside the token list, and no token
  index lies in more than one span.
\<close>

theorem scan_single_pass:
  "(\<forall>ix toks s. pos s < length toks \<longrightarrow>
       pos s < pos (scan_step ix toks s) \<and> pos (scan_step ix toks s) \<le> length toks
       \<and> ((\<exists>L e. 1 \<le> L \<and> L \<le> min 4 (length toks - pos s)
              \<and> pos (scan_step ix toks s) = pos s + L
              \<and> matches (scan_step ix toks s) = matches s @ [(join_space (take L (drop (pos s) toks)), e)])
           \<or> (pos (scan_step ix toks s) = pos s + 1 \<and> matches (scan_step ix toks s) = matches s)))
   \<and> (\<forall>ix toks. \<exists>k \<le> length toks.
         scan_loop ix toks \<lparr>pos = 0, counts = [], matches = []\<rparr>
           = (scan_step ix toks ^^ k) \<lparr>pos = 0, counts = [], matches = []\<rparr>
         \<and> pos (scan_loop ix toks \<lparr>pos = 0, counts = [], matches = []\<rparr>) = length toks
         \<and> (\<forall>j < k. pos ((scan_step ix toks ^^ j) \<lparr>pos = 0, counts = [], matches = []\<rparr>) < length toks))
   \<and> (\<forall>ix toks. matches (scan_loop ix toks \<lparr>pos = 0, counts = [], matches = []\<rparr>)
                   = map (span_phrase ix toks) (scan_spans ix toks 0))
   \<and> (\<forall>ix toks i L. (i, L) \<in> set (scan_spans ix toks 0) \<longrightarrow> 1 \<le> L \<and> i + L \<le> length toks)
   \<and> (\<forall>ix toks k. length (filter (covers k) (scan_spans ix toks 0)) \<le> 1)"
proof -
  have a: "pos s < pos (scan_step ix toks s) \<and> pos (scan_step ix toks s) \<le> length toks
       \<and> ((\<exists>L e. 1 \<le> L \<and> L \<le> min 4 (length toks - pos s)
              \<and> pos (scan_step ix toks s) = pos s + L
              \<and> matches (scan_step ix toks s) = matches s @ [(join_space (take L (drop (pos s) toks)), e)])
           \<or> (pos (scan_step ix toks s) = pos s + 1 \<and> matches (scan_step ix toks s) = matches s))"
    if "pos s < length toks" for ix toks s
    using scan_step_pos[OF that, of ix] scan_step_cases[OF that, of ix] by blast
  have b: "\<exists>k \<le> length toks.
         scan_loop ix toks \<lparr>pos = 0, counts = [], matches = []\<rparr>
           = (scan_step ix toks ^^ k) \<lparr>pos = 0, counts = [], matches = []\<rparr>
         \<and> pos (scan_loop ix toks \<lparr>pos = 0, counts = [], matches = []\<rparr>) = length toks
         \<and> (\<forall>j < k. pos ((scan_step ix toks ^^ j) \<lparr>pos = 0, counts = [], matches = []\<rparr>) < length toks)"
    for ix toks
    using scan_loop_iterations[of "\<lparr>pos = 0, counts = [], matches = []\<rparr>" toks ix] by simp
  have c: "matches (scan_loop ix toks \<lparr>pos = 0, counts = [], matches = []\<rparr>)
                   = map (span_phrase ix toks) (scan_spans ix toks 0)" for ix toks
    using scan_loop_spans[of ix toks "\<lparr>pos = 0, counts = [], matches = []\<rparr>"] by simp
  have d: "1 \<le> L \<and> i + L \<le> length toks" if "(i, L) \<in> set (scan_spans ix toks 0)" for ix toks i L
    using scan_spans_range[OF that] by simp
  from a b c d scan_spans_disjoint show ?thesis by blast
qed

theorem scan_single_pass_witness:
  "pos \<lparr>pos = 2, counts = [], matches = []\<rparr> < length [''this'', ''is'', ''not'', ''good'', ''today'']
   \<and> pos \<lparr>pos = 2, counts = [], matches = []\<rparr>
       < pos (scan_step not_good_index [''this'', ''is'', ''not'', ''good'', ''today'']
                \<lparr>pos = 2, counts = [], matches = []\<rparr>)
   \<and> pos (scan_step not_good_index [''this'', ''is'', ''not'', ''good'', ''today'']
                \<lparr>pos = 2, counts = [], matches = []\<rparr>) \<le> length [''this'', ''is'', ''not'', ''good'', ''today'']
   \<and> (2, 2) \<in> set (scan_spans not_good_index [''this'', ''is'', ''not'', ''good'', ''today''] 0)
   \<and> 2 + 2 \<le> length [''this'', ''is'', ''not'', ''good'', ''today'']
   \<and> length (filter (covers 3) (scan_spans not_good_index [''this'', ''is'', ''not'', ''good'', ''today''] 0)) \<le> 1
   \<and> pos (scan_loop not_good_index [''this'', ''is'', ''not'', ''good'', ''today'']
             \<lparr>pos = 0, counts = [], matches = []\<rparr>) = 5"
proof -
  note T = scan_single_pass
  let ?toks = "[''this'', ''is'', ''not'', ''good'', ''today'']"
  let ?s = "\<lparr>pos = 2, counts = [], matches = []\<rparr> :: scan_state"
  have h1: "pos ?s < length ?toks" by simp
  with T have s1: "pos ?s < pos (scan_step not_good_index ?toks ?s)
       \<and> pos (scan_step not_good_index ?toks ?s) \<le> length ?toks" by blast
  have h2: "(2, 2) \<in> set (scan_spans not_good_index ?toks 0)" by code_simp
  with T have s2: "(1::nat) \<le> 2 \<and> 2 + 2 \<le> length ?toks" by blast
  from T have s3: "length (filter (covers 3) (scan_spans not_good_index ?toks 0)) \<le> 1" by blast
  from T obtain k where "pos (scan_loop not_good_index ?toks \<lparr>pos = 0, counts = [], matches = []\<rparr>) = length ?toks"
    by blast
  then have s4: "pos (scan_loop not_good_index ?toks \<lparr>pos = 0, counts = [], matches = []\<rparr>) = 5" by simp
  from h1 s1 h2 s2 s3 s4 show ?thesis by blast
qed

end
